theory Spec2Isabelle
  imports Complex_Main "HOL-Library.Word"
begin

unbundle bit_operations_syntax

section \<open>JavaScript numbers and typed arrays\<close>

text \<open>
  The conversion pipeline of \<^verbatim>\<open>ascii-worker.js\<close> computes with JavaScript numbers.
  A number is modelled as an exact rational, or one of the three special values the
  arithmetic of the program can produce: \<^verbatim>\<open>NaN\<close>, \<^verbatim>\<open>Infinity\<close> and \<^verbatim>\<open>-Infinity\<close>.
  Rounding of IEEE doubles (and of the \<^verbatim>\<open>Float32Array\<close> that holds the luminances) and
  the sign of zero are not modelled. A read past the end of a typed array yields
  \<^verbatim>\<open>undefined\<close>, which every use in this program turns into \<^verbatim>\<open>NaN\<close> (arithmetic) or
  into 0 (the shifts of \<^verbatim>\<open>quantizeColors\<close>), exactly as \<^verbatim>\<open>NaN\<close> itself would be; so such a
  read is modelled as \<^verbatim>\<open>NaN\<close>.
\<close>

datatype jsnum = Fin rat | NaN | PInf | NInf

fun nneg :: "jsnum \<Rightarrow> jsnum" where
  "nneg (Fin a) = Fin (- a)"
| "nneg NaN = NaN"
| "nneg PInf = NInf"
| "nneg NInf = PInf"

fun nadd :: "jsnum \<Rightarrow> jsnum \<Rightarrow> jsnum" where
  "nadd (Fin a) (Fin b) = Fin (a + b)"
| "nadd NaN _ = NaN"
| "nadd _ NaN = NaN"
| "nadd PInf NInf = NaN"
| "nadd NInf PInf = NaN"
| "nadd PInf _ = PInf"
| "nadd _ PInf = PInf"
| "nadd NInf _ = NInf"
| "nadd _ NInf = NInf"

definition nsub :: "jsnum \<Rightarrow> jsnum \<Rightarrow> jsnum" where
  "nsub a b = nadd a (nneg b)"

fun nmul :: "jsnum \<Rightarrow> jsnum \<Rightarrow> jsnum" where
  "nmul (Fin a) (Fin b) = Fin (a * b)"
| "nmul NaN _ = NaN"
| "nmul _ NaN = NaN"
| "nmul (Fin a) PInf = (if a = 0 then NaN else if 0 < a then PInf else NInf)"
| "nmul (Fin a) NInf = (if a = 0 then NaN else if 0 < a then NInf else PInf)"
| "nmul PInf (Fin b) = (if b = 0 then NaN else if 0 < b then PInf else NInf)"
| "nmul NInf (Fin b) = (if b = 0 then NaN else if 0 < b then NInf else PInf)"
| "nmul PInf PInf = PInf"
| "nmul NInf NInf = PInf"
| "nmul PInf NInf = NInf"
| "nmul NInf PInf = NInf"

fun ndiv :: "jsnum \<Rightarrow> jsnum \<Rightarrow> jsnum" where
  "ndiv (Fin a) (Fin b) =
     (if b = 0 then (if a = 0 then NaN else if 0 < a then PInf else NInf) else Fin (a / b))"
| "ndiv NaN _ = NaN"
| "ndiv _ NaN = NaN"
| "ndiv (Fin a) PInf = Fin 0"
| "ndiv (Fin a) NInf = Fin 0"
| "ndiv PInf (Fin b) = (if 0 \<le> b then PInf else NInf)"
| "ndiv NInf (Fin b) = (if 0 \<le> b then NInf else PInf)"
| "ndiv PInf PInf = NaN"
| "ndiv PInf NInf = NaN"
| "ndiv NInf PInf = NaN"
| "ndiv NInf NInf = NaN"

instantiation jsnum :: "{plus, minus, uminus, times, inverse}"
begin
definition plus_jsnum :: "jsnum \<Rightarrow> jsnum \<Rightarrow> jsnum" where "plus_jsnum = nadd"
definition minus_jsnum :: "jsnum \<Rightarrow> jsnum \<Rightarrow> jsnum" where "minus_jsnum = nsub"
definition uminus_jsnum :: "jsnum \<Rightarrow> jsnum" where "uminus_jsnum = nneg"
definition times_jsnum :: "jsnum \<Rightarrow> jsnum \<Rightarrow> jsnum" where "times_jsnum = nmul"
definition divide_jsnum :: "jsnum \<Rightarrow> jsnum \<Rightarrow> jsnum" where "divide_jsnum = ndiv"
definition inverse_jsnum :: "jsnum \<Rightarrow> jsnum" where "inverse_jsnum = ndiv (Fin 1)"
instance ..
end

text \<open>\<^verbatim>\<open>Math.floor\<close> and \<^verbatim>\<open>Math.round\<close> (which rounds halves towards \<^verbatim>\<open>+Infinity\<close>).\<close>

fun floorN :: "jsnum \<Rightarrow> jsnum" where
  "floorN (Fin a) = Fin (of_int \<lfloor>a\<rfloor>)"
| "floorN x = x"

fun roundN :: "jsnum \<Rightarrow> jsnum" where
  "roundN (Fin a) = Fin (of_int \<lfloor>a + 1 / 2\<rfloor>)"
| "roundN x = x"

text \<open>The comparison \<^verbatim>\<open>a < b\<close>: false as soon as one side is \<^verbatim>\<open>NaN\<close>.\<close>

fun lessN :: "jsnum \<Rightarrow> jsnum \<Rightarrow> bool" where
  "lessN (Fin a) (Fin b) = (a < b)"
| "lessN NaN _ = False"
| "lessN _ NaN = False"
| "lessN NInf NInf = False"
| "lessN NInf _ = True"
| "lessN _ NInf = False"
| "lessN PInf _ = False"
| "lessN _ PInf = True"

text \<open>\<^verbatim>\<open>Math.min\<close> and \<^verbatim>\<open>Math.max\<close>: \<^verbatim>\<open>NaN\<close> as soon as one argument is.\<close>

fun minN :: "jsnum \<Rightarrow> jsnum \<Rightarrow> jsnum" where
  "minN NaN _ = NaN"
| "minN _ NaN = NaN"
| "minN a b = (if lessN b a then b else a)"

fun maxN :: "jsnum \<Rightarrow> jsnum \<Rightarrow> jsnum" where
  "maxN NaN _ = NaN"
| "maxN _ NaN = NaN"
| "maxN a b = (if lessN a b then b else a)"

text \<open>\<^verbatim>\<open>ToInt32\<close>, applied by the shift and bitwise operators: truncate, then wrap to 32 bits.\<close>

fun toInt32 :: "jsnum \<Rightarrow> 32 word" where
  "toInt32 (Fin a) = word_of_int (if 0 \<le> a then \<lfloor>a\<rfloor> else \<lceil>a\<rceil>)"
| "toInt32 _ = 0"

type_synonym byte = "8 word"

text \<open>\<^verbatim>\<open>pixels[i]\<close> on a \<^verbatim>\<open>Uint8ClampedArray\<close>.\<close>

definition px :: "byte list \<Rightarrow> nat \<Rightarrow> jsnum" where
  "px pixels i = (if i < length pixels then Fin (of_nat (unat (pixels ! i))) else NaN)"

section \<open>Colour quantisation\<close>

text \<open>
  \<^verbatim>\<open>colorMap\<close> is a JavaScript \<^verbatim>\<open>Map\<close> from packed 32-bit keys to counts; it iterates in
  insertion order, so it is an association list, a new key going to the end.
\<close>

type_synonym colorMap = "(32 word \<times> int) list"

fun tally :: "32 word \<Rightarrow> colorMap \<Rightarrow> colorMap" where
  "tally k [] = [(k, 1)]"
| "tally k ((k', n) # m) = (if k = k' then (k', n + 1) # m else (k', n) # tally k m)"

definition sampleStep :: "byte list \<Rightarrow> nat" where
  "sampleStep pixels = max 1 (length pixels div 4 div 10000)"

definition sampleIndices :: "byte list \<Rightarrow> nat list" where
  "sampleIndices pixels = [i \<leftarrow> [0..<length pixels]. i mod (4 * sampleStep pixels) = 0]"

text \<open>The body of the sampling loop up to the key: the (possibly desaturated) colour.\<close>

definition sampleColor :: "byte list \<Rightarrow> rat \<Rightarrow> nat \<Rightarrow> jsnum \<times> jsnum \<times> jsnum" where
  "sampleColor pixels saturation i =
     (let r = px pixels i; g = px pixels (i + 1); b = px pixels (i + 2)
      in if saturation < 1 then
           (let gray = roundN (Fin (299 / 1000) * r + Fin (587 / 1000) * g + Fin (114 / 1000) * b)
            in (roundN (gray + Fin saturation * (r - gray)),
                roundN (gray + Fin saturation * (g - gray)),
                roundN (gray + Fin saturation * (b - gray))))
         else (r, g, b))"

definition packKey :: "jsnum \<times> jsnum \<times> jsnum \<Rightarrow> 32 word" where
  "packKey c = (case c of (r, g, b) \<Rightarrow>
     push_bit 16 (toInt32 r) OR push_bit 8 (toInt32 g) OR toInt32 b)"

definition collectColors :: "byte list \<Rightarrow> rat \<Rightarrow> colorMap" where
  "collectColors pixels saturation =
     foldl (\<lambda>m i. tally (packKey (sampleColor pixels saturation i)) m) [] (sampleIndices pixels)"

text \<open>An entry \<^verbatim>\<open>[r, g, b, count]\<close> of \<^verbatim>\<open>colorList\<close>, and a palette entry \<^verbatim>\<open>[r, g, b]\<close>.\<close>

type_synonym wcolor = "int \<times> int \<times> int \<times> int"
type_synonym rgb = "int \<times> int \<times> int"

definition unpackKey :: "32 word \<times> int \<Rightarrow> wcolor" where
  "unpackKey e = (case e of (key, count) \<Rightarrow>
     (uint (signed_drop_bit 16 key AND 0xff), uint (signed_drop_bit 8 key AND 0xff),
      uint (key AND 0xff), count))"

definition colorList :: "byte list \<Rightarrow> rat \<Rightarrow> wcolor list" where
  "colorList pixels saturation = map unpackKey (collectColors pixels saturation)"

fun chan :: "nat \<Rightarrow> wcolor \<Rightarrow> int" where
  "chan ch (r, g, b, w) = (if ch = 0 then r else if ch = 1 then g else if ch = 2 then b else w)"

definition dropWeight :: "wcolor \<Rightarrow> rgb" where
  "dropWeight c = (chan 0 c, chan 1 c, chan 2 c)"

definition getRange :: "wcolor list \<Rightarrow> nat \<Rightarrow> int" where
  "getRange colors channel =
     (let (mn, mx) = foldl (\<lambda>(mn, mx) c.
                        (let mn' = (if chan channel c < mn then chan channel c else mn);
                             mx' = (if chan channel c > mx then chan channel c else mx)
                         in (mn', mx'))) (255, 0) colors
      in mx - mn)"

text \<open>\<^verbatim>\<open>Math.round(t / n)\<close> for integers \<^verbatim>\<open>t\<close> and \<^verbatim>\<open>n\<close>, \<^verbatim>\<open>n\<close> not 0.\<close>

definition roundDiv :: "int \<Rightarrow> int \<Rightarrow> int" where
  "roundDiv t n = \<lfloor>(of_int t / of_int n :: rat) + 1 / 2\<rfloor>"

text \<open>
  \<^verbatim>\<open>Math.ceil(Math.log2(numColors))\<close> for a count \<^verbatim>\<open>numColors\<close>; it is \<^verbatim>\<open>-Infinity\<close> at 0.
\<close>

fun ceilLog2 :: "nat \<Rightarrow> nat" where
  "ceilLog2 n = (if n \<le> 1 then 0 else Suc (ceilLog2 ((n + 1) div 2)))"

definition depthFor :: "nat \<Rightarrow> jsnum" where
  "depthFor numColors = (if numColors = 0 then NInf else Fin (of_nat (ceilLog2 numColors)))"

text \<open>The leaf of \<^verbatim>\<open>medianCut\<close>: the weighted sums of the bucket.\<close>

definition bucketSums :: "wcolor list \<Rightarrow> int \<times> int \<times> int \<times> int" where
  "bucketSums colors =
     (sum_list (map (\<lambda>c. chan 0 c * chan 3 c) colors),
      sum_list (map (\<lambda>c. chan 1 c * chan 3 c) colors),
      sum_list (map (\<lambda>c. chan 2 c * chan 3 c) colors),
      sum_list (map (chan 3) colors))"

subsection \<open>The worker's \<^verbatim>\<open>quantizeColors\<close>\<close>

definition workerChannel :: "wcolor list \<Rightarrow> nat" where
  "workerChannel colors =
     (let rRange = getRange colors 0; gRange = getRange colors 1; bRange = getRange colors 2
      in if gRange \<ge> rRange \<and> gRange \<ge> bRange then 1
         else if bRange \<ge> rRange \<and> bRange \<ge> gRange then 2
         else 0)"

function medianCut :: "wcolor list \<Rightarrow> jsnum \<Rightarrow> rgb list" where
  "medianCut colors depth =
     (if depth = Fin 0 \<or> length colors \<le> 1 then
        (case bucketSums colors of (tr, tg, tb, total') \<Rightarrow>
           if total' = 0 then [(128, 128, 128)]
           else [(roundDiv tr total', roundDiv tg total', roundDiv tb total')])
      else
        medianCut (take (length colors div 2) (sort_key (chan (workerChannel colors)) colors))
                  (depth - Fin 1)
        @ medianCut (drop (length colors div 2) (sort_key (chan (workerChannel colors)) colors))
                    (depth - Fin 1))"
  by pat_completeness auto
termination
  by (relation "measure (\<lambda>(colors, depth). length colors)") auto

definition quantizeColors :: "byte list \<Rightarrow> nat \<Rightarrow> rat \<Rightarrow> rgb list" where
  "quantizeColors pixels numColors saturation =
     (let colorList = colorList pixels saturation
      in if length colorList \<le> numColors then map dropWeight colorList
         else take numColors (medianCut colorList (depthFor numColors)))"

subsection \<open>The main thread's \<^verbatim>\<open>quantizeColors\<close>\<close>

text \<open>\<^verbatim>\<open>ranges.indexOf(Math.max(...ranges))\<close>: the first index holding the greatest range.\<close>

definition mainChannel :: "wcolor list \<Rightarrow> nat" where
  "mainChannel colors =
     (let ranges = [getRange colors 0, getRange colors 1, getRange colors 2];
          m = max (ranges ! 0) (max (ranges ! 1) (ranges ! 2))
      in length (takeWhile (\<lambda>v. v \<noteq> m) ranges))"

function medianCutMain :: "wcolor list \<Rightarrow> jsnum \<Rightarrow> rgb list" where
  "medianCutMain colors depth =
     (if depth = Fin 0 \<or> length colors \<le> 1 then
        (case bucketSums colors of (tr, tg, tb, tw) \<Rightarrow>
           if tw = 0 then []
           else [(roundDiv tr tw, roundDiv tg tw, roundDiv tb tw)])
      else
        medianCutMain (take (length colors div 2) (sort_key (chan (mainChannel colors)) colors))
                      (depth - Fin 1)
        @ medianCutMain (drop (length colors div 2) (sort_key (chan (mainChannel colors)) colors))
                        (depth - Fin 1))"
  by pat_completeness auto
termination
  by (relation "measure (\<lambda>(colors, depth). length colors)") auto

definition quantizeColorsMain :: "byte list \<Rightarrow> nat \<Rightarrow> rat \<Rightarrow> rgb list" where
  "quantizeColorsMain pixels numColors saturation =
     (let colorList = colorList pixels saturation
      in if length colorList \<le> numColors then map dropWeight colorList
         else take numColors (medianCutMain colorList (depthFor numColors)))"

section \<open>Contrast normalisation\<close>

text \<open>
  \<^verbatim>\<open>histogram[bin]++\<close>: an entry of the 256 bins is incremented when \<^verbatim>\<open>bin\<close> is one of
  their indices. Any other \<^verbatim>\<open>bin\<close> (negative, above 255, \<^verbatim>\<open>NaN\<close>) sets a property that the
  loop over the 256 bins never reads.
\<close>

definition binIndex :: "jsnum \<Rightarrow> nat option" where
  "binIndex bin = (case bin of
       Fin q \<Rightarrow> if 0 \<le> q \<and> q < 256 \<and> of_int \<lfloor>q\<rfloor> = q then Some (nat \<lfloor>q\<rfloor>) else None
     | _ \<Rightarrow> None)"

definition binOf :: "jsnum \<Rightarrow> jsnum" where
  "binOf b = floorN (b * Fin 255)"

definition increment :: "nat list \<Rightarrow> jsnum \<Rightarrow> nat list" where
  "increment histogram bin =
     (case binIndex bin of Some k \<Rightarrow> histogram[k := histogram ! k + 1] | None \<Rightarrow> histogram)"

definition histogramOf :: "jsnum list \<Rightarrow> nat list" where
  "histogramOf brightness = foldl (\<lambda>h b. increment h (binOf b)) (replicate 256 0) brightness"

text \<open>\<^verbatim>\<open>cdf[0] = histogram[0]; cdf[i] = cdf[i - 1] + histogram[i]\<close>.\<close>

fun runningSum :: "nat \<Rightarrow> nat list \<Rightarrow> nat list" where
  "runningSum acc [] = []"
| "runningSum acc (x # xs) = (acc + x) # runningSum (acc + x) xs"

definition cdfOf :: "nat list \<Rightarrow> nat list" where
  "cdfOf histogram = runningSum 0 histogram"

text \<open>\<^verbatim>\<open>cdf[bin]\<close> and \<^verbatim>\<open>cdfMin\<close> as operands of the subtraction: \<^verbatim>\<open>undefined\<close> gives \<^verbatim>\<open>NaN\<close>.\<close>

definition cdfAt :: "nat list \<Rightarrow> jsnum \<Rightarrow> jsnum" where
  "cdfAt cdf bin = (case binIndex bin of Some k \<Rightarrow> Fin (of_nat (cdf ! k)) | None \<Rightarrow> NaN)"

definition numOrUndefined :: "nat option \<Rightarrow> jsnum" where
  "numOrUndefined v = (case v of Some n \<Rightarrow> Fin (of_nat n) | None \<Rightarrow> NaN)"

definition equalize :: "jsnum list \<Rightarrow> jsnum list" where
  "equalize brightness =
     (let cdf = cdfOf (histogramOf brightness);
          cdfMin = numOrUndefined (find (\<lambda>v. v > 0) cdf);
          total' = Fin (of_nat (length brightness))
      in map (\<lambda>b. (cdfAt cdf (binOf b) - cdfMin) / (total' - cdfMin)) brightness)"

definition adjustContrast :: "rat \<Rightarrow> jsnum \<Rightarrow> jsnum" where
  "adjustContrast contrast b =
     maxN (Fin 0) (minN (Fin 1) ((b - Fin (1 / 2)) * Fin contrast + Fin (1 / 2)))"

definition applyContrast :: "jsnum list \<Rightarrow> rat \<Rightarrow> bool \<Rightarrow> jsnum list" where
  "applyContrast brightness contrast useHistogram =
     (if contrast = 1 \<and> \<not> useHistogram then brightness
      else
        (let brightness1 = (if useHistogram then equalize brightness else brightness)
         in if contrast \<noteq> 1 then map (adjustContrast contrast) brightness1 else brightness1))"

section \<open>Glyph mapping\<close>

datatype colorMode = Monochrome | Truecolor | Ansi256 | Adaptive nat

text \<open>
  The \<^verbatim>\<open>settings\<close> object of a \<^verbatim>\<open>convert\<close> message. The numeric options are quotients of
  slider positions by 100, hence rationals; \<^verbatim>\<open>colorMode\<close> is one of the strings
  \<^verbatim>\<open>monochrome\<close>, \<^verbatim>\<open>truecolor\<close>, \<^verbatim>\<open>ansi256\<close> and \<^verbatim>\<open>adaptive\<close> followed by the colour count.
  Strings are lists of 8-bit characters.
\<close>

record settings =
  chars :: string
  invert :: bool
  contrast :: rat
  histogram :: bool
  colorMode :: colorMode
  saturation :: rat
  blend :: rat
  baseOpacity :: rat
  brightnessOpacity :: bool
  fgR :: jsnum
  fgG :: jsnum
  fgB :: jsnum

definition getBrightness :: "jsnum \<Rightarrow> jsnum \<Rightarrow> jsnum \<Rightarrow> jsnum" where
  "getBrightness r g b =
     (Fin (299 / 1000) * r + Fin (587 / 1000) * g + Fin (114 / 1000) * b) / Fin 255"

definition rawBrightness :: "byte list \<Rightarrow> nat \<Rightarrow> nat \<Rightarrow> jsnum list" where
  "rawBrightness pixels width height =
     map (\<lambda>i. getBrightness (px pixels (i * 4)) (px pixels (i * 4 + 1)) (px pixels (i * 4 + 2)))
         [0..<width * height]"

definition newline :: char where
  "newline = CHR 0x0A"

text \<open>
  \<^verbatim>\<open>ascii += chars[charIndex]\<close>: a character of the ramp when \<^verbatim>\<open>charIndex\<close> is one of its
  indices; otherwise \<^verbatim>\<open>chars[charIndex]\<close> is \<^verbatim>\<open>undefined\<close> and the nine characters of that
  word are appended.
\<close>

definition charIndexOf :: "string \<Rightarrow> jsnum \<Rightarrow> jsnum" where
  "charIndexOf chars' brightness =
     minN (Fin (of_nat (length chars') - 1)) (floorN (brightness * Fin (of_nat (length chars'))))"

definition charAtIndex :: "string \<Rightarrow> jsnum \<Rightarrow> string" where
  "charAtIndex chars' charIndex =
     (case charIndex of
        Fin q \<Rightarrow> if 0 \<le> q \<and> q < of_nat (length chars') \<and> of_int \<lfloor>q\<rfloor> = q
                 then [chars' ! nat \<lfloor>q\<rfloor>] else ''undefined''
      | _ \<Rightarrow> ''undefined'')"

text \<open>A read of the \<^verbatim>\<open>Float32Array\<close> of luminances.\<close>

definition fget :: "jsnum list \<Rightarrow> nat \<Rightarrow> jsnum" where
  "fget values i = (if i < length values then values ! i else NaN)"

definition asciiRow :: "string \<Rightarrow> jsnum list \<Rightarrow> nat \<Rightarrow> nat \<Rightarrow> string" where
  "asciiRow chars' brightnessValues width y =
     concat (map (\<lambda>x. charAtIndex chars' (charIndexOf chars' (fget brightnessValues (y * width + x))))
                 [0..<width]) @ [newline]"

record mapping =
  ascii :: string
  brightnessValues :: "jsnum list"

definition brightnessMapping :: "byte list \<Rightarrow> nat \<Rightarrow> nat \<Rightarrow> settings \<Rightarrow> mapping" where
  "brightnessMapping pixels width height s =
     (let chars' = (if invert s then rev (chars s) else chars s);
          values = applyContrast (rawBrightness pixels width height) (contrast s) (histogram s)
      in \<lparr> ascii = concat (map (asciiRow chars' values width) [0..<height]),
           brightnessValues = values \<rparr>)"

section \<open>Strings\<close>

definition digitChar :: "nat \<Rightarrow> char" where
  "digitChar d = char_of (48 + d)"

fun showNat :: "nat \<Rightarrow> string" where
  "showNat n = (if n < 10 then [digitChar n] else showNat (n div 10) @ [digitChar (n mod 10)])"

definition showInt :: "int \<Rightarrow> string" where
  "showInt i = (if i < 0 then ''-'' @ showNat (nat (- i)) else showNat (nat i))"

text \<open>
  A number inside a template literal. The colour channels printed this way are bytes,
  palette entries or results of \<^verbatim>\<open>Math.round\<close>, hence integers, or one of the special values.
\<close>

fun numStr :: "jsnum \<Rightarrow> string" where
  "numStr (Fin q) = showInt \<lfloor>q\<rfloor>"
| "numStr NaN = ''NaN''"
| "numStr PInf = ''Infinity''"
| "numStr NInf = ''-Infinity''"

text \<open>\<^verbatim>\<open>toFixed(2)\<close>: the nearest multiple of 1/100, the larger one at a tie, after the sign.\<close>

definition fixed2 :: "rat \<Rightarrow> string" where
  "fixed2 q =
     (let n = nat \<lfloor>\<bar>q\<bar> * 100 + 1 / 2\<rfloor>
      in (if q < 0 then ''-'' else []) @ showNat (n div 100) @ ''.''
         @ [digitChar (n mod 100 div 10), digitChar (n mod 10)])"

fun toFixed2 :: "jsnum \<Rightarrow> string" where
  "toFixed2 (Fin q) = fixed2 q"
| "toFixed2 NaN = ''NaN''"
| "toFixed2 PInf = ''Infinity''"
| "toFixed2 NInf = ''-Infinity''"

definition escapeChar :: "char \<Rightarrow> string" where
  "escapeChar c =
     (if c = CHR ''&'' then ''&amp;''
      else if c = CHR ''<'' then ''&lt;''
      else if c = CHR ''>'' then ''&gt;''
      else if c = CHR 0x22 then ''&quot;''
      else if c = CHR 0x27 then ''&#039;''
      else [c])"

definition escapeHtml :: "string \<Rightarrow> string" where
  "escapeHtml text' = concat (map escapeChar text')"

text \<open>\<^verbatim>\<open>ascii.split('\n')\<close>.\<close>

fun splitLines :: "string \<Rightarrow> string list" where
  "splitLines [] = [[]]"
| "splitLines (c # cs) =
     (if c = newline then [] # splitLines cs
      else (case splitLines cs of [] \<Rightarrow> [[c]] | l # ls \<Rightarrow> (c # l) # ls))"

section \<open>Cell colours\<close>

datatype error = TypeError

text \<open>
  \<^verbatim>\<open>nearestColor\<close> starts from \<^verbatim>\<open>palette[0]\<close>, which is \<^verbatim>\<open>undefined\<close> for an empty palette;
  the caller's \<^verbatim>\<open>nearest[0]\<close> then throws a \<^verbatim>\<open>TypeError\<close>.
\<close>

definition distanceTo :: "jsnum \<Rightarrow> jsnum \<Rightarrow> jsnum \<Rightarrow> rgb \<Rightarrow> jsnum" where
  "distanceTo r g b c = (case c of (c0, c1, c2) \<Rightarrow>
     (let dr = r - Fin (of_int c0); dg = g - Fin (of_int c1); db = b - Fin (of_int c2)
      in dr * dr + dg * dg + db * db))"

definition nearestColor :: "jsnum \<Rightarrow> jsnum \<Rightarrow> jsnum \<Rightarrow> rgb list \<Rightarrow> rgb option" where
  "nearestColor r g b palette =
     snd (foldl (\<lambda>(minDist, nearest) c.
                   if lessN (distanceTo r g b c) minDist then (distanceTo r g b c, Some c)
                   else (minDist, nearest))
                (PInf, case palette of [] \<Rightarrow> None | c # _ \<Rightarrow> Some c) palette)"

definition snapToPalette ::
  "rgb list option \<Rightarrow> jsnum \<times> jsnum \<times> jsnum \<Rightarrow> error + jsnum \<times> jsnum \<times> jsnum" where
  "snapToPalette palette c = (case c of (r, g, b) \<Rightarrow>
     (case palette of
        None \<Rightarrow> Inr (r, g, b)
      | Some p \<Rightarrow>
          (case nearestColor r g b p of
             None \<Rightarrow> Inl TypeError
           | Some (c0, c1, c2) \<Rightarrow> Inr (Fin (of_int c0), Fin (of_int c1), Fin (of_int c2)))))"

definition applySaturation :: "rat \<Rightarrow> jsnum \<times> jsnum \<times> jsnum \<Rightarrow> jsnum \<times> jsnum \<times> jsnum" where
  "applySaturation sat c = (case c of (r, g, b) \<Rightarrow>
     if sat \<noteq> 1 then
       (let gray = Fin (299 / 1000) * r + Fin (587 / 1000) * g + Fin (114 / 1000) * b
        in (roundN (gray + Fin sat * (r - gray)),
            roundN (gray + Fin sat * (g - gray)),
            roundN (gray + Fin sat * (b - gray))))
     else (r, g, b))"

definition applyBlend :: "rat \<Rightarrow> jsnum \<Rightarrow> jsnum \<times> jsnum \<times> jsnum \<Rightarrow> jsnum \<times> jsnum \<times> jsnum" where
  "applyBlend bl charBrightness c = (case c of (r, g, b) \<Rightarrow>
     if bl \<noteq> 1 / 2 then
       (let adjustedBlend = (bl - 1 / 2) * 2;
            factor = (if adjustedBlend \<ge> 0
                      then Fin 1 - Fin adjustedBlend * (Fin 1 - charBrightness)
                      else Fin 1 + Fin \<bar>adjustedBlend\<bar> * (Fin 1 - charBrightness))
        in (roundN (r * factor), roundN (g * factor), roundN (b * factor)))
     else (r, g, b))"

definition clamp255 :: "jsnum \<Rightarrow> jsnum" where
  "clamp255 v = maxN (Fin 0) (minN (Fin 255) v)"

definition cellOpacity :: "settings \<Rightarrow> jsnum \<Rightarrow> jsnum" where
  "cellOpacity s charBrightness =
     (if brightnessOpacity s
      then Fin (baseOpacity s)
           * (Fin 1 - (if invert s then Fin 1 - charBrightness else charBrightness))
      else Fin (baseOpacity s))"

definition getColorString :: "jsnum \<Rightarrow> jsnum \<Rightarrow> jsnum \<Rightarrow> jsnum \<Rightarrow> string" where
  "getColorString r g b opacity =
     (if lessN opacity (Fin 1)
      then ''rgba('' @ numStr r @ '','' @ numStr g @ '','' @ numStr b @ '','' @ toFixed2 opacity @ '')''
      else ''rgb('' @ numStr r @ '','' @ numStr g @ '','' @ numStr b @ '')'')"

definition cellColor ::
  "byte list \<Rightarrow> nat \<Rightarrow> jsnum list \<Rightarrow> settings \<Rightarrow> rgb list option \<Rightarrow> nat \<Rightarrow> nat \<Rightarrow> error + string" where
  "cellColor pixels width brightnessData s palette y x =
     (let i = (y * width + x) * 4
      in case snapToPalette palette (px pixels i, px pixels (i + 1), px pixels (i + 2)) of
           Inl e \<Rightarrow> Inl e
         | Inr c \<Rightarrow>
             (case applyBlend (blend s) (fget brightnessData (y * width + x))
                     (applySaturation (saturation s) c) of
                (r, g, b) \<Rightarrow>
                  Inr (getColorString (clamp255 r) (clamp255 g) (clamp255 b)
                         (cellOpacity s (fget brightnessData (y * width + x))))))"

section \<open>Run-length markup\<close>

text \<open>
  The character of cell \<^verbatim>\<open>(x, y)\<close>: \<^verbatim>\<open>lines[y] ? lines[y][x] : ' '\<close>. A missing or empty line
  gives a space; a column past the end of a line gives \<^verbatim>\<open>undefined\<close> and the cell is skipped.
\<close>

definition cellChar :: "string list \<Rightarrow> nat \<Rightarrow> nat \<Rightarrow> char option" where
  "cellChar lines y x =
     (if y < length lines \<and> lines ! y \<noteq> []
      then (if x < length (lines ! y) then Some (lines ! y ! x) else None)
      else Some CHR '' '')"

definition spanTag :: "string \<Rightarrow> string \<Rightarrow> string" where
  "spanTag color text' =
     ''<span style='' @ [CHR 0x22] @ ''color:'' @ color @ [CHR 0x22] @ ''>'' @ text' @ ''</span>''"

text \<open>
  The state of the loop over one row: \<^verbatim>\<open>currentColor\<close> (\<^verbatim>\<open>null\<close> at the start),
  \<^verbatim>\<open>currentChars\<close> and the \<^verbatim>\<open>parts\<close> pushed so far. A cell is its style and its character.
\<close>

type_synonym rowState = "string option \<times> string \<times> string list"

definition flush :: "(string \<Rightarrow> string \<Rightarrow> string) \<Rightarrow> rowState \<Rightarrow> string list" where
  "flush tag st = (case st of (currentColor, currentChars, parts) \<Rightarrow>
     (case currentColor of None \<Rightarrow> parts | Some c \<Rightarrow> parts @ [tag c currentChars]))"

definition mergeCell :: "(string \<Rightarrow> string \<Rightarrow> string) \<Rightarrow> rowState \<Rightarrow> string \<times> char \<Rightarrow> rowState" where
  "mergeCell tag st cell = (case (st, cell) of ((currentColor, currentChars, parts), (colorStr, ch)) \<Rightarrow>
     if Some colorStr = currentColor
     then (currentColor, currentChars @ escapeHtml [ch], parts)
     else (Some colorStr, escapeHtml [ch], flush tag st))"

definition rowParts :: "(string \<Rightarrow> string \<Rightarrow> string) \<Rightarrow> (string \<times> char) list \<Rightarrow> string list" where
  "rowParts tag cells = flush tag (foldl (mergeCell tag) (None, [], []) cells) @ [[newline]]"

fun allOrError :: "(error + 'a) list \<Rightarrow> error + 'a list" where
  "allOrError [] = Inr []"
| "allOrError (Inl e # rest) = Inl e"
| "allOrError (Inr v # rest) = (case allOrError rest of Inl e \<Rightarrow> Inl e | Inr vs \<Rightarrow> Inr (v # vs))"

text \<open>The cells of row \<^verbatim>\<open>y\<close> that are not skipped, each with its colour string.\<close>

definition rowCells ::
  "(nat \<Rightarrow> nat \<Rightarrow> error + string) \<Rightarrow> string list \<Rightarrow> nat \<Rightarrow> nat \<Rightarrow> error + (string \<times> char) list" where
  "rowCells style lines width y =
     allOrError (concat (map (\<lambda>x. case cellChar lines y x of
                                     None \<Rightarrow> []
                                   | Some ch \<Rightarrow> [case style y x of Inl e \<Rightarrow> Inl e
                                                                  | Inr c \<Rightarrow> Inr (c, ch)])
                             [0..<width]))"

definition markup ::
  "(string \<Rightarrow> string \<Rightarrow> string) \<Rightarrow> (nat \<Rightarrow> nat \<Rightarrow> error + string) \<Rightarrow> string \<Rightarrow> nat \<Rightarrow> nat
     \<Rightarrow> error + string" where
  "markup tag style ascii' width height =
     (case allOrError (map (rowCells style (splitLines ascii') width) [0..<height]) of
        Inl e \<Rightarrow> Inl e
      | Inr rows \<Rightarrow> Inr (concat (concat (map (rowParts tag) rows))))"

definition applyColorToAscii ::
  "string \<Rightarrow> byte list \<Rightarrow> nat \<Rightarrow> nat \<Rightarrow> jsnum list \<Rightarrow> settings \<Rightarrow> rgb list option
     \<Rightarrow> error + string option" where
  "applyColorToAscii ascii' pixels width height brightnessData s palette =
     (if colorMode s = Monochrome then Inr None
      else (case markup spanTag (cellColor pixels width brightnessData s palette) ascii' width height of
              Inl e \<Rightarrow> Inl e
            | Inr html \<Rightarrow> Inr (Some html)))"

subsection \<open>Monochrome with brightness as opacity\<close>

definition monoOpacity :: "byte list \<Rightarrow> nat \<Rightarrow> settings \<Rightarrow> nat \<Rightarrow> nat \<Rightarrow> string" where
  "monoOpacity pixels width s y x =
     (let pi' = (y * width + x) * 4;
          brightness = getBrightness (px pixels pi') (px pixels (pi' + 1)) (px pixels (pi' + 2));
          brightness' = (if invert s then Fin 1 - brightness else brightness)
      in toFixed2 (Fin (baseOpacity s) * (Fin 1 - brightness')))"

definition monoSpan :: "settings \<Rightarrow> string \<Rightarrow> string \<Rightarrow> string" where
  "monoSpan s opacity text' =
     ''<span style='' @ [CHR 0x22] @ ''color:rgba('' @ numStr (fgR s) @ '','' @ numStr (fgG s)
     @ '','' @ numStr (fgB s) @ '','' @ opacity @ '')'' @ [CHR 0x22] @ ''>'' @ text' @ ''</span>''"

definition processMonoBrightnessOpacity ::
  "string \<Rightarrow> byte list \<Rightarrow> nat \<Rightarrow> nat \<Rightarrow> settings \<Rightarrow> error + string" where
  "processMonoBrightnessOpacity ascii' pixels width height s =
     markup (monoSpan s) (\<lambda>y x. Inr (monoOpacity pixels width s y x)) ascii' width height"

section \<open>The message handler\<close>

record cachedPalette =
  cachedNumColors :: nat
  cachedSaturation :: rat
  cachedColors :: "rgb list"

datatype message =
    Convert "byte list" nat nat settings "rgb list"
  | ClearCache
  | OtherMessage

text \<open>The posted message, without \<^verbatim>\<open>duration\<close>, which is a reading of the clock.\<close>

record result =
  resultAscii :: string
  resultHtml :: "string option"
  resultWidth :: nat
  resultHeight :: nat

datatype outcome = Posted result | Threw error | Silent

text \<open>The palette of a \<^verbatim>\<open>convert\<close> message, and the cache after choosing it.\<close>

definition choosePalette ::
  "byte list \<Rightarrow> settings \<Rightarrow> rgb list \<Rightarrow> cachedPalette option
     \<Rightarrow> rgb list option \<times> cachedPalette option" where
  "choosePalette pixels s ansi256Palette cache =
     (case colorMode s of
        Ansi256 \<Rightarrow> (Some ansi256Palette, cache)
      | Adaptive numColors \<Rightarrow>
          (let fresh = \<lparr> cachedNumColors = numColors, cachedSaturation = saturation s,
                         cachedColors = quantizeColors pixels numColors (saturation s) \<rparr>;
               cache' = (case cache of
                           None \<Rightarrow> fresh
                         | Some c \<Rightarrow> if cachedNumColors c \<noteq> numColors
                                        \<or> cachedSaturation c \<noteq> saturation s then fresh else c)
           in (Some (cachedColors cache'), Some cache'))
      | _ \<Rightarrow> (None, cache))"

definition onmessage :: "message \<Rightarrow> cachedPalette option \<Rightarrow> outcome \<times> cachedPalette option" where
  "onmessage msg cache =
     (case msg of
        Convert pixels width height s ansi256Palette \<Rightarrow>
          (let m = brightnessMapping pixels width height s
           in if colorMode s \<noteq> Monochrome then
                (case choosePalette pixels s ansi256Palette cache of (palette, cache') \<Rightarrow>
                   (case applyColorToAscii (ascii m) pixels width height (brightnessValues m) s palette of
                      Inl e \<Rightarrow> (Threw e, cache')
                    | Inr html \<Rightarrow>
                        (Posted \<lparr> resultAscii = ascii m, resultHtml = html,
                                  resultWidth = width, resultHeight = height \<rparr>, cache')))
              else if brightnessOpacity s then
                (case processMonoBrightnessOpacity (ascii m) pixels width height s of
                   Inl e \<Rightarrow> (Threw e, cache)
                 | Inr html \<Rightarrow>
                     (Posted \<lparr> resultAscii = ascii m, resultHtml = Some html,
                               resultWidth = width, resultHeight = height \<rparr>, cache))
              else
                (Posted \<lparr> resultAscii = ascii m, resultHtml = None,
                          resultWidth = width, resultHeight = height \<rparr>, cache))
      | ClearCache \<Rightarrow> (Silent, None)
      | OtherMessage \<Rightarrow> (Silent, cache))"

section \<open>The colour-string cache of the optimised worker\<close>

text \<open>
  \<^verbatim>\<open>colorCache\<close> is a \<^verbatim>\<open>Map\<close> from packed keys to colour strings, an association list here;
  a key is only set after its lookup failed. The channels come from \<^verbatim>\<open>Uint8Array\<close>s, the
  opacity from a \<^verbatim>\<open>Float32Array\<close>.
\<close>

type_synonym colorCache = "(32 word \<times> string) list"

definition COLOR_CACHE_MAX :: nat where
  "COLOR_CACHE_MAX = 50000"

definition cacheKey :: "jsnum \<Rightarrow> byte \<Rightarrow> byte \<Rightarrow> byte \<Rightarrow> 32 word" where
  "cacheKey opacityInt r g b =
     push_bit 24 (toInt32 opacityInt) OR push_bit 16 (ucast r) OR push_bit 8 (ucast g) OR ucast b"

definition byteStr :: "byte \<Rightarrow> string" where
  "byteStr v = showNat (unat v)"

definition getColorStringCached ::
  "byte \<Rightarrow> byte \<Rightarrow> byte \<Rightarrow> jsnum \<Rightarrow> colorCache \<Rightarrow> string \<times> colorCache" where
  "getColorStringCached r g b opacity cache =
     (let opacityInt = roundN (opacity * Fin 100);
          key = cacheKey opacityInt r g b
      in case map_of cache key of
           Some cached \<Rightarrow> (cached, cache)
         | None \<Rightarrow>
             (let colorStr =
                    (if lessN opacityInt (Fin 100)
                     then ''rgba('' @ byteStr r @ '','' @ byteStr g @ '','' @ byteStr b @ '',''
                          @ toFixed2 (opacityInt / Fin 100) @ '')''
                     else ''rgb('' @ byteStr r @ '','' @ byteStr g @ '','' @ byteStr b @ '')'');
                  cache' = (if length cache \<ge> COLOR_CACHE_MAX then [] else cache)
              in (colorStr, cache' @ [(key, colorStr)])))"

text \<open>The cache after a sequence of calls, starting from the empty cache of a new worker.\<close>

definition cacheAfter :: "(byte \<times> byte \<times> byte \<times> jsnum) list \<Rightarrow> colorCache" where
  "cacheAfter calls =
     foldl (\<lambda>cache (r, g, b, opacity). snd (getColorStringCached r g b opacity cache)) [] calls"

section \<open>The dispatcher of the main thread\<close>

text \<open>
  The controls read by \<^verbatim>\<open>convertToAscii\<close>: the text of the custom ramp, the check boxes, the
  integer positions of the sliders and the foreground colour.
\<close>

record controls =
  customChars :: string
  invertBrightness :: bool
  contrastAmount :: int
  contrastHistogram :: bool
  colorModeValue :: colorMode
  colorSaturation :: int
  brightnessBlend :: int
  globalOpacity :: int
  brightnessOpacityChecked :: bool
  monoFg :: "jsnum \<times> jsnum \<times> jsnum"

definition defaultRamp :: string where
  "defaultRamp = ''@%#*+=-:. ''"

definition workerSettings :: "controls \<Rightarrow> settings" where
  "workerSettings c =
     \<lparr> chars = (if customChars c \<noteq> [] then customChars c else defaultRamp),
       invert = invertBrightness c,
       contrast = of_int (contrastAmount c) / 100,
       histogram = contrastHistogram c,
       colorMode = colorModeValue c,
       saturation = of_int (colorSaturation c) / 100,
       blend = of_int (brightnessBlend c) / 100,
       baseOpacity = of_int (globalOpacity c) / 100,
       brightnessOpacity = brightnessOpacityChecked c,
       fgR = fst (monoFg c),
       fgG = fst (snd (monoFg c)),
       fgB = snd (snd (monoFg c)) \<rparr>"

text \<open>The message \<^verbatim>\<open>convertToAscii\<close> posts to the worker for a scaled image.\<close>

definition convertMessage :: "controls \<Rightarrow> byte list \<Rightarrow> nat \<Rightarrow> nat \<Rightarrow> rgb list \<Rightarrow> message" where
  "convertMessage c pixels width height ansi256 = Convert pixels width height (workerSettings c) ansi256"

text \<open>
  What the main thread posts to an idle worker for a new picture, already scaled to the
  grid. \<^verbatim>\<open>loadImage\<close> posts \<^verbatim>\<open>clearCache\<close> and then, through \<^verbatim>\<open>convertToAscii\<close>, the \<^verbatim>\<open>convert\<close>
  message. \<^verbatim>\<open>convertVideoFrame\<close>, called for every frame of a video or of the webcam, sets
  the main thread's own \<^verbatim>\<open>cachedPalette\<close> to \<^verbatim>\<open>null\<close> and calls \<^verbatim>\<open>convertToAscii\<close>: it posts the
  \<^verbatim>\<open>convert\<close> message alone.
\<close>

definition loadImage :: "controls \<Rightarrow> byte list \<Rightarrow> nat \<Rightarrow> nat \<Rightarrow> rgb list \<Rightarrow> message list" where
  "loadImage c pixels width height ansi256 =
     [ClearCache, convertMessage c pixels width height ansi256]"

definition convertVideoFrame :: "controls \<Rightarrow> byte list \<Rightarrow> nat \<Rightarrow> nat \<Rightarrow> rgb list \<Rightarrow> message list" where
  "convertVideoFrame c pixels width height ansi256 =
     [convertMessage c pixels width height ansi256]"

text \<open>
  The worker handles the messages in the order they were posted; \<^verbatim>\<open>cachedPalette\<close> lives
  from one message to the next.
\<close>

fun runWorker :: "message list \<Rightarrow> cachedPalette option \<Rightarrow> outcome list" where
  "runWorker [] cache = []"
| "runWorker (msg # rest) cache =
     (case onmessage msg cache of (out, cache') \<Rightarrow> out # runWorker rest cache')"

section \<open>Maximal runs of equally styled cells\<close>

text \<open>
  The specification of the renderer, in its own words: a run is a maximal sequence of
  adjacent cells of one row that share their style. \<^verbatim>\<open>styleRuns\<close> cuts a row into its runs,
  each with its style and its characters.
\<close>

function styleRuns :: "(string \<times> char) list \<Rightarrow> (string \<times> string) list" where
  "styleRuns [] = []"
| "styleRuns ((c, ch) # cells) =
     (c, ch # map snd (takeWhile (\<lambda>cell. fst cell = c) cells))
     # styleRuns (dropWhile (\<lambda>cell. fst cell = c) cells)"
  by pat_completeness auto
termination
  by (relation "measure length") (auto simp: less_Suc_eq_le length_dropWhile_le)

definition renderRun :: "(string \<Rightarrow> string \<Rightarrow> string) \<Rightarrow> string \<times> string \<Rightarrow> string" where
  "renderRun tag run = tag (fst run) (escapeHtml (snd run))"

section \<open>Cache hits\<close>

text \<open>
  A \<^verbatim>\<open>convert\<close> message reuses \<^verbatim>\<open>cachedPalette\<close> when the mode is adaptive and the cache
  holds a palette for the same colour count and saturation.
\<close>

definition cacheHit :: "settings \<Rightarrow> cachedPalette option \<Rightarrow> bool" where
  "cacheHit s cache =
     (case (colorMode s, cache) of
        (Adaptive numColors, Some c) \<Rightarrow>
          cachedNumColors c = numColors \<and> cachedSaturation c = saturation s
      | _ \<Rightarrow> False)"

text \<open>The outcome of a \<^verbatim>\<open>convert\<close> message in a colour mode, given the palette it uses.\<close>

definition colorOutcome ::
  "byte list \<Rightarrow> nat \<Rightarrow> nat \<Rightarrow> settings \<Rightarrow> rgb list option \<Rightarrow> outcome" where
  "colorOutcome pixels width height s palette =
     (let m = brightnessMapping pixels width height s
      in case applyColorToAscii (ascii m) pixels width height (brightnessValues m) s palette of
           Inl e \<Rightarrow> Threw e
         | Inr html \<Rightarrow> Posted \<lparr> resultAscii = ascii m, resultHtml = html,
                                  resultWidth = width, resultHeight = height \<rparr>)"

section \<open>Cell opacities and the cached colour strings\<close>

text \<open>A cell opacity, like a normalised luminance, is a number between 0 and 1.\<close>

fun unitNum :: "jsnum \<Rightarrow> bool" where
  "unitNum (Fin q) = (0 \<le> q \<and> q \<le> 1)"
| "unitNum _ = False"

definition unitCall :: "byte \<times> byte \<times> byte \<times> jsnum \<Rightarrow> bool" where
  "unitCall call = (case call of (r, g, b, opacity) \<Rightarrow> unitNum opacity)"

text \<open>The colour string of channels \<^verbatim>\<open>r\<close>, \<^verbatim>\<open>g\<close>, \<^verbatim>\<open>b\<close> at \<^verbatim>\<open>n\<close> hundredths of opacity.\<close>

definition colorText :: "int \<Rightarrow> byte \<Rightarrow> byte \<Rightarrow> byte \<Rightarrow> string" where
  "colorText n r g b =
     (if n < 100
      then ''rgba('' @ byteStr r @ '','' @ byteStr g @ '','' @ byteStr b @ '',0.''
           @ [digitChar (nat n div 10), digitChar (nat n mod 10)] @ '')''
      else ''rgb('' @ byteStr r @ '','' @ byteStr g @ '','' @ byteStr b @ '')'')"

text \<open>Every entry of the cache is the colour string of its key.\<close>

definition cacheSound :: "colorCache \<Rightarrow> bool" where
  "cacheSound cache =
     (\<forall>(key, str) \<in> set cache. \<exists>n r g b. 0 \<le> n \<and> n \<le> 100
        \<and> key = cacheKey (Fin (of_int n)) r g b \<and> str = colorText n r g b)"

section \<open>The sampled colours\<close>

text \<open>
  The colours the sampling loop of \<^verbatim>\<open>quantizeColors\<close> puts into buckets, in the order of the
  loop and with repetitions, and a palette entry read as a triple of numbers.
\<close>

definition sampledColors :: "byte list \<Rightarrow> rat \<Rightarrow> (jsnum \<times> jsnum \<times> jsnum) list" where
  "sampledColors pixels sat = map (sampleColor pixels sat) (sampleIndices pixels)"

definition rgbNum :: "rgb \<Rightarrow> jsnum \<times> jsnum \<times> jsnum" where
  "rgbNum c = (case c of (r, g, b) \<Rightarrow> (Fin (of_int r), Fin (of_int g), Fin (of_int b)))"

text \<open>A number that is an integer from 0 to 255.\<close>

definition byteNum :: "jsnum \<Rightarrow> bool" where
  "byteNum x = (\<exists>n. 0 \<le> n \<and> n \<le> 255 \<and> x = Fin (of_int n))"

text \<open>A colour whose three channels are such numbers, and the colour a key unpacks to.\<close>

definition byteColor :: "jsnum \<times> jsnum \<times> jsnum \<Rightarrow> bool" where
  "byteColor c = (case c of (r, g, b) \<Rightarrow> byteNum r \<and> byteNum g \<and> byteNum b)"

definition keyColor :: "32 word \<Rightarrow> rgb" where
  "keyColor key = dropWeight (unpackKey (key, 0))"

section \<open>Uniform luminance\<close>

text \<open>All samples fall into one bin of the histogram.\<close>

definition oneBin :: "jsnum list \<Rightarrow> bool" where
  "oneBin brightness = (\<forall>b\<in>set brightness. \<forall>b'\<in>set brightness. binOf b = binOf b')"

section \<open>Concrete inputs\<close>

text \<open>Settings with every option at its neutral value, and a three-character ramp.\<close>

definition plainSettings :: settings where
  "plainSettings =
     \<lparr> chars = ''#. '', invert = False, contrast = 1, histogram = False,
       colorMode = Monochrome, saturation = 1, blend = 1 / 2, baseOpacity = 1,
       brightnessOpacity = False, fgR = Fin 0, fgG = Fin 255, fgB = Fin 0 \<rparr>"

text \<open>
  Three pixels \<^verbatim>\<open>(0,10,0)\<close>, \<^verbatim>\<open>(10,0,10)\<close> and \<^verbatim>\<open>(5,5,5)\<close>: each channel ranges over 10.
  Three pixels \<^verbatim>\<open>(0,10,0)\<close>, \<^verbatim>\<open>(10,0,0)\<close> and \<^verbatim>\<open>(5,5,0)\<close>: red and green range over 10, blue
  over 0.
\<close>

definition tiePixels :: "byte list" where
  "tiePixels = [0, 10, 0, 255,  10, 0, 10, 255,  5, 5, 5, 255]"

definition tiePixelsRG :: "byte list" where
  "tiePixelsRG = [0, 10, 0, 255,  10, 0, 0, 255,  5, 5, 0, 255]"

definition redPixel :: "byte list" where
  "redPixel = [255, 0, 0, 255]"

definition bluePixel :: "byte list" where
  "bluePixel = [0, 0, 255, 255]"

definition whitePixel :: "byte list" where
  "whitePixel = [255, 255, 255, 255]"

text \<open>Five red pixels in a row.\<close>

definition fiveRed :: "byte list" where
  "fiveRed = [255, 0, 0, 255,  255, 0, 0, 255,  255, 0, 0, 255,  255, 0, 0, 255,  255, 0, 0, 255]"

text \<open>Controls with an empty custom ramp.\<close>

definition emptyRampControls :: controls where
  "emptyRampControls =
     \<lparr> customChars = [], invertBrightness = False, contrastAmount = 100,
       contrastHistogram = False, colorModeValue = Monochrome, colorSaturation = 100,
       brightnessBlend = 50, globalOpacity = 100, brightnessOpacityChecked = False,
       monoFg = (Fin 0, Fin 255, Fin 0) \<rparr>"

text \<open>A black pixel followed by a white one.\<close>

definition blackWhite :: "byte list" where
  "blackWhite = [0, 0, 0, 255,  255, 255, 255, 255]"

text \<open>
  Controls at their neutral positions with the ramp \<^verbatim>\<open>#. \<close> and the adaptive mode of two
  colours.
\<close>

definition adaptiveControls :: controls where
  "adaptiveControls =
     \<lparr> customChars = ''#. '', invertBrightness = False, contrastAmount = 100,
       contrastHistogram = False, colorModeValue = Adaptive 2, colorSaturation = 100,
       brightnessBlend = 50, globalOpacity = 100, brightnessOpacityChecked = False,
       monoFg = (Fin 0, Fin 255, Fin 0) \<rparr>"


section \<open>Properties of the number model\<close>

lemmas num_arith = plus_jsnum_def minus_jsnum_def uminus_jsnum_def times_jsnum_def
  divide_jsnum_def inverse_jsnum_def nsub_def

lemma Fin_plus: "Fin a + Fin b = Fin (a + b)" by (simp add: num_arith)
lemma Fin_minus: "Fin a - Fin b = Fin (a - b)" by (simp add: num_arith)
lemma Fin_times: "Fin a * Fin b = Fin (a * b)" by (simp add: num_arith)
lemma Fin_divide: "b \<noteq> 0 \<Longrightarrow> Fin a / Fin b = Fin (a / b)" by (simp add: num_arith)
lemmas Fin_arith = Fin_plus Fin_minus Fin_times Fin_divide

section \<open>Channel selection in median cut\<close>

text \<open>
  The main thread takes the first channel that holds the greatest range: red before green
  before blue.
\<close>

lemma mainChannel_first_greatest:
  "mainChannel colors =
     (if getRange colors 1 \<le> getRange colors 0 \<and> getRange colors 2 \<le> getRange colors 0 then 0
      else if getRange colors 2 \<le> getRange colors 1 then 1 else 2)"
  by (simp add: mainChannel_def Let_def max_def)

text \<open>
  The worker tests green first and blue second, each with \<^verbatim>\<open>>=\<close>, and keeps red only when
  both tests fail: at a tie it prefers green, then blue, then red.
\<close>

lemma workerChannel_all_equal:
  assumes "getRange colors 0 = getRange colors 1" and "getRange colors 1 = getRange colors 2"
  shows "workerChannel colors = 1"
  using assms by (simp add: workerChannel_def Let_def)

lemma workerChannel_red_green_tie:
  assumes "getRange colors 0 = getRange colors 1" and "getRange colors 2 < getRange colors 1"
  shows "workerChannel colors = 1"
  using assms by (simp add: workerChannel_def Let_def)

lemma workerChannel_red_blue_tie:
  assumes "getRange colors 0 = getRange colors 2" and "getRange colors 1 < getRange colors 0"
  shows "workerChannel colors = 2"
  using assms by (simp add: workerChannel_def Let_def)

text \<open>
  The two implementations differ only below the root of a split: when the colours fit into
  the palette, both return them as they are.
\<close>

lemma quantizeColors_agree_when_few:
  assumes "length (colorList pixels sat) \<le> k"
  shows "quantizeColors pixels k sat = quantizeColorsMain pixels k sat"
  using assms by (simp add: quantizeColors_def quantizeColorsMain_def Let_def del: medianCut.simps medianCutMain.simps)

text \<open>
  C3. At a node whose three channel ranges are equal the channel chosen should be red, and
  at a two-way tie for the greatest range the earlier channel. In the worker's
  \<^verbatim>\<open>medianCut\<close> the root node built from \<^verbatim>\<open>tiePixels\<close> has the three ranges equal to 10 and
  the channel chosen is green (1); the root node built from \<^verbatim>\<open>tiePixelsRG\<close> has red and
  green tied at 10 above blue and the channel chosen is green again. The main thread's
  \<^verbatim>\<open>medianCut\<close> chooses red (0) at both nodes.
\<close>

theorem worker_medianCut_tie_prefers_green:
  "getRange (colorList tiePixels 1) 0 = 10
   \<and> getRange (colorList tiePixels 1) 1 = 10
   \<and> getRange (colorList tiePixels 1) 2 = 10
   \<and> workerChannel (colorList tiePixels 1) = 1
   \<and> mainChannel (colorList tiePixels 1) = 0
   \<and> getRange (colorList tiePixelsRG 1) 0 = 10
   \<and> getRange (colorList tiePixelsRG 1) 1 = 10
   \<and> getRange (colorList tiePixelsRG 1) 2 = 0
   \<and> workerChannel (colorList tiePixelsRG 1) = 1
   \<and> mainChannel (colorList tiePixelsRG 1) = 0"
  by code_simp

text \<open>
  C8. The main thread's and the worker's \<^verbatim>\<open>quantizeColors\<close> should return the same palette
  for every input. For the three pixels of \<^verbatim>\<open>tiePixels\<close>, two colours and saturation 1, the
  worker splits on green and the main thread on red, and the palettes differ. The leaves
  of the two \<^verbatim>\<open>medianCut\<close>s for an empty bucket differ as well.
\<close>

theorem quantizeColors_worker_differs_from_main:
  "quantizeColors tiePixels 2 1 = [(10, 0, 10), (3, 8, 3)]
   \<and> quantizeColorsMain tiePixels 2 1 = [(0, 10, 0), (8, 3, 8)]
   \<and> medianCut [] (Fin 1) = [(128, 128, 128)]
   \<and> medianCutMain [] (Fin 1) = []"
  by code_simp

section \<open>Histogram equalisation of a uniform image\<close>

text \<open>
  C1. Histogram equalisation of luminances that all fall into one bin should return them
  unchanged, without dividing by zero and without \<^verbatim>\<open>NaN\<close>. With \<^verbatim>\<open>useHistogram\<close> set and
  contrast 1, \<^verbatim>\<open>applyContrast\<close> turns two luminances 1/2 into two \<^verbatim>\<open>NaN\<close>s (0 divided by 0),
  and a white pixel, whose luminance is 1, is mapped to the text \<^verbatim>\<open>undefined\<close>.
\<close>

theorem applyContrast_uniform_gives_NaN:
  "applyContrast [Fin (1 / 2), Fin (1 / 2)] 1 True = [NaN, NaN]
   \<and> brightnessMapping whitePixel 1 1 (plainSettings\<lparr>histogram := True\<rparr>)
       = \<lparr> ascii = ''undefined'' @ [newline], brightnessValues = [NaN] \<rparr>"
  by code_simp

section \<open>Glyph mapping of a luminance\<close>

lemma charIndexOf_unit:
  assumes "0 \<le> v" "v \<le> 1" "chars' \<noteq> []"
  shows "charIndexOf chars' (Fin v)
         = Fin (of_nat (min (length chars' - 1) (nat \<lfloor>v * of_nat (length chars')\<rfloor>)))"
proof -
  let ?n = "length chars'"
  have n: "0 < ?n" using assms by simp
  have nn: "0 \<le> v * of_nat ?n" using assms by simp
  then have fl: "0 \<le> \<lfloor>v * of_nat ?n\<rfloor>" by simp
  have a: "(of_nat ?n - 1 :: rat) = of_nat (?n - 1)" using n by (cases "length chars'") simp_all
  have b: "(of_int \<lfloor>v * of_nat ?n\<rfloor> :: rat) = of_nat (nat \<lfloor>v * of_nat ?n\<rfloor>)"
    using fl by simp
  show ?thesis
    unfolding charIndexOf_def Fin_times floorN.simps a b
    by (simp add: min_def)
qed

lemma charAtIndex_nat:
  assumes "k < length chars'"
  shows "charAtIndex chars' (Fin (of_nat k)) = [chars' ! k]"
  using assms by (simp add: charAtIndex_def)

lemma charAtIndex_charIndexOf_unit:
  assumes "0 \<le> v" "v \<le> 1" "chars' \<noteq> []"
  shows "charAtIndex chars' (charIndexOf chars' (Fin v))
         = [chars' ! min (length chars' - 1) (nat \<lfloor>v * of_nat (length chars')\<rfloor>)]"
proof -
  have "min (length chars' - 1) (nat \<lfloor>v * of_nat (length chars')\<rfloor>) < length chars'"
    using assms(3) by (cases "length chars'") (simp_all add: min_def)
  then show ?thesis
    unfolding charIndexOf_unit [OF assms] by (rule charAtIndex_nat)
qed









section \<open>Run merging\<close>

lemma escapeHtml_append: "escapeHtml (a @ b) = escapeHtml a @ escapeHtml b"
  by (simp add: escapeHtml_def)

lemma flush_foldl_mergeCell:
  "flush tag (foldl (mergeCell tag) (Some c, escapeHtml run, parts) cells)
   = parts @ [tag c (escapeHtml (run @ map snd (takeWhile (\<lambda>cell. fst cell = c) cells)))]
     @ map (renderRun tag) (styleRuns (dropWhile (\<lambda>cell. fst cell = c) cells))"
proof (induction cells arbitrary: c run parts)
  case Nil
  show ?case by (simp add: flush_def)
next
  case (Cons cell cells)
  obtain c' ch where cell: "cell = (c', ch)" by (cases cell)
  show ?case
  proof (cases "c' = c")
    case True
    have "mergeCell tag (Some c, escapeHtml run, parts) cell = (Some c, escapeHtml (run @ [ch]), parts)"
      using True by (simp add: mergeCell_def cell escapeHtml_append)
    then show ?thesis
      using Cons.IH [of c "run @ [ch]" parts] True by (simp add: cell)
  next
    case False
    have "mergeCell tag (Some c, escapeHtml run, parts) cell
          = (Some c', escapeHtml [ch], parts @ [tag c (escapeHtml run)])"
      using False by (auto simp add: mergeCell_def cell flush_def)
    then show ?thesis
      using Cons.IH [of c' "[ch]" "parts @ [tag c (escapeHtml run)]"] False
      by (simp add: cell renderRun_def)
  qed
qed

lemma rowParts_styleRuns:
  "rowParts tag cells = map (renderRun tag) (styleRuns cells) @ [[newline]]"
proof (cases cells)
  case Nil
  then show ?thesis by (simp add: rowParts_def flush_def)
next
  case (Cons cell rest)
  obtain c ch where cell: "cell = (c, ch)" by (cases cell)
  have "mergeCell tag (None, [], []) cell = (Some c, escapeHtml [ch], [])"
    by (simp add: mergeCell_def cell flush_def)
  then show ?thesis
    using flush_foldl_mergeCell [of tag c "[ch]" "[]" rest]
    by (simp add: rowParts_def Cons cell renderRun_def)
qed

lemma styleRuns_partition:
  "concat (map (\<lambda>run. map (Pair (fst run)) (snd run)) (styleRuns cells)) = cells"
proof (induction cells rule: styleRuns.induct)
  case 1
  show ?case by simp
next
  case (2 c ch cells)
  have "map (Pair c) (map snd (takeWhile (\<lambda>cell. fst cell = c) cells))
        = takeWhile (\<lambda>cell. fst cell = c) cells"
    by (induction cells) auto
  with 2 show ?case by simp
qed

lemma styleRuns_hd:
  "styleRuns cells \<noteq> [] \<Longrightarrow> fst (hd (styleRuns cells)) = fst (hd cells)"
  by (cases cells) auto

lemma styleRuns_maximal: "distinct_adj (map fst (styleRuns cells))"
proof (induction cells rule: styleRuns.induct)
  case 1
  show ?case by simp
next
  case (2 c ch cells)
  let ?rest = "dropWhile (\<lambda>cell. fst cell = c) cells"
  show ?case
  proof (cases "?rest")
    case Nil
    then show ?thesis by (simp del: dropWhile_eq_Nil_conv)
  next
    case (Cons cell' rest')
    have "fst (hd ?rest) \<noteq> c"
      using hd_dropWhile [of "\<lambda>cell. fst cell = c" cells] Cons by simp
    moreover have "styleRuns ?rest \<noteq> []" using Cons by (cases cell') simp
    ultimately have "fst (hd (styleRuns ?rest)) \<noteq> c"
      by (simp add: styleRuns_hd)
    with 2 \<open>styleRuns ?rest \<noteq> []\<close> show ?thesis
      by (cases "styleRuns ?rest") (auto simp: distinct_adj_Cons)
  qed
qed

lemma styleRuns_nonempty: "[] \<notin> snd ` set (styleRuns cells)"
  by (induction cells rule: styleRuns.induct) auto

lemma rowParts_five:
  "rowParts tag [(c, a1), (c, a2), (c, a3), (c, a4), (c, a5)]
   = [tag c (escapeHtml [a1, a2, a3, a4, a5]), [newline]]"
  by (simp add: rowParts_styleRuns renderRun_def)

lemma concat_rowParts:
  "concat (rowParts tag cells) = concat (map (renderRun tag) (styleRuns cells)) @ [newline]"
  by (simp add: rowParts_styleRuns)

lemma markup_styleRuns:
  assumes "allOrError (map (rowCells style (splitLines a) w) [0..<h]) = Inr rows"
  shows "markup tag style a w h
         = Inr (concat (map (\<lambda>cells. concat (map (renderRun tag) (styleRuns cells)) @ [newline]) rows))"
proof -
  have "concat (concat (map (rowParts tag) rows))
        = concat (map (\<lambda>cells. concat (rowParts tag cells)) rows)"
    by (induction rows) simp_all
  then show ?thesis
    using assms by (simp add: markup_def concat_rowParts)
qed

text \<open>
  C6. \<^verbatim>\<open>applyColorToAscii\<close> emits one styled span per maximal run of adjacent cells of a row
  with the same colour string. The parts pushed for a row are the spans of its runs, in
  order, then the newline; the runs partition the row, none is empty, and two adjacent runs
  never have the same style (so each run is maximal). A row of five cells of one style
  gives one span of five characters. The markup of the whole grid is the concatenation
  of the rows' spans.
\<close>

theorem applyColorToAscii_run_merging:
  "rowParts tag cells = map (renderRun tag) (styleRuns cells) @ [[newline]]
   \<and> concat (map (\<lambda>run. map (Pair (fst run)) (snd run)) (styleRuns cells)) = cells
   \<and> distinct_adj (map fst (styleRuns cells))
   \<and> [] \<notin> snd ` set (styleRuns cells)
   \<and> rowParts tag [(c, a1), (c, a2), (c, a3), (c, a4), (c, a5)]
       = [tag c (escapeHtml [a1, a2, a3, a4, a5]), [newline]]
   \<and> (colorMode s \<noteq> Monochrome
        \<and> allOrError (map (rowCells (cellColor pixels w bd s palette) (splitLines a) w) [0..<h])
            = Inr rows \<longrightarrow>
        applyColorToAscii a pixels w h bd s palette
        = Inr (Some (concat (map (\<lambda>cells. concat (map (renderRun spanTag) (styleRuns cells))
                                           @ [newline]) rows))))"
  by (simp add: rowParts_styleRuns styleRuns_partition styleRuns_maximal styleRuns_nonempty
        renderRun_def applyColorToAscii_def markup_styleRuns)

theorem applyColorToAscii_run_merging_witness:
  "colorMode (plainSettings\<lparr>colorMode := Truecolor\<rparr>) \<noteq> Monochrome
   \<and> allOrError (map (rowCells (cellColor fiveRed 5 [Fin 0, Fin 0, Fin 0, Fin 0, Fin 0]
                                   (plainSettings\<lparr>colorMode := Truecolor\<rparr>) None)
                        (splitLines (''#####'' @ [newline])) 5) [0..<1])
       = Inr [[(''rgb(255,0,0)'', CHR ''#''), (''rgb(255,0,0)'', CHR ''#''),
               (''rgb(255,0,0)'', CHR ''#''), (''rgb(255,0,0)'', CHR ''#''),
               (''rgb(255,0,0)'', CHR ''#'')]]
   \<and> applyColorToAscii (''#####'' @ [newline]) fiveRed 5 1 [Fin 0, Fin 0, Fin 0, Fin 0, Fin 0]
         (plainSettings\<lparr>colorMode := Truecolor\<rparr>) None
       = Inr (Some (spanTag ''rgb(255,0,0)'' ''#####'' @ [newline]))"
proof -
  have m: "colorMode (plainSettings\<lparr>colorMode := Truecolor\<rparr>) \<noteq> Monochrome"
    by simp
  have r: "allOrError (map (rowCells (cellColor fiveRed 5 [Fin 0, Fin 0, Fin 0, Fin 0, Fin 0]
                                   (plainSettings\<lparr>colorMode := Truecolor\<rparr>) None)
                        (splitLines (''#####'' @ [newline])) 5) [0..<1])
       = Inr [[(''rgb(255,0,0)'', CHR ''#''), (''rgb(255,0,0)'', CHR ''#''),
               (''rgb(255,0,0)'', CHR ''#''), (''rgb(255,0,0)'', CHR ''#''),
               (''rgb(255,0,0)'', CHR ''#'')]]"
    by code_simp
  have c: "concat (map (\<lambda>cells. concat (map (renderRun spanTag) (styleRuns cells)) @ [newline])
              [[(''rgb(255,0,0)'', CHR ''#''), (''rgb(255,0,0)'', CHR ''#''),
                (''rgb(255,0,0)'', CHR ''#''), (''rgb(255,0,0)'', CHR ''#''),
                (''rgb(255,0,0)'', CHR ''#'')]])
           = spanTag ''rgb(255,0,0)'' ''#####'' @ [newline]"
    by (simp add: renderRun_def escapeHtml_def escapeChar_def)
  have t: "applyColorToAscii (''#####'' @ [newline]) fiveRed 5 1 [Fin 0, Fin 0, Fin 0, Fin 0, Fin 0]
         (plainSettings\<lparr>colorMode := Truecolor\<rparr>) None
       = Inr (Some (spanTag ''rgb(255,0,0)'' ''#####'' @ [newline]))"
    using applyColorToAscii_run_merging [THEN conjunct2, THEN conjunct2, THEN conjunct2,
        THEN conjunct2, THEN conjunct2, rule_format, OF conjI, OF m r]
    by (simp only: c)
  from m r t show ?thesis by (intro conjI)
qed

section \<open>The palette cache across messages\<close>

lemma onmessage_miss:
  assumes "\<not> cacheHit s cache"
  shows "fst (onmessage (Convert pixels w h s ansi) cache) = fst (onmessage (Convert pixels w h s ansi) None)"
  using assms
  by (cases "colorMode s"; cases cache)
     (simp_all add: onmessage_def choosePalette_def cacheHit_def Let_def split: sum.splits)

lemma onmessage_hit:
  assumes "cacheHit s (Some c)"
  shows "onmessage (Convert pixels w h s ansi) (Some c)
         = (colorOutcome pixels w h s (Some (cachedColors c)), Some c)"
  using assms
  by (cases "colorMode s")
     (auto simp add: onmessage_def choosePalette_def cacheHit_def colorOutcome_def Let_def split: sum.splits)

lemma onmessage_fresh:
  assumes "colorMode s = Adaptive n"
  shows "fst (onmessage (Convert pixels w h s ansi) None)
         = colorOutcome pixels w h s (Some (quantizeColors pixels n (saturation s)))"
  using assms
  by (auto simp add: onmessage_def choosePalette_def colorOutcome_def Let_def split: sum.splits)

text \<open>
  Two runs of the handler on identical \<^verbatim>\<open>convert\<close> messages post the same ascii. They post
  the same html when, at the start of each run, the cache is not hit: the mode is not
  adaptive, or \<^verbatim>\<open>cachedPalette\<close> is \<^verbatim>\<open>null\<close> (a new worker, or after \<^verbatim>\<open>clearCache\<close>) or holds a
  palette for another colour count or saturation. When the cache is hit, the result is
  computed from the cached colours, whatever pixels they were built from.
\<close>

lemma onmessage_same_unless_cache_hit:
  "(\<not> cacheHit s cache1 \<and> \<not> cacheHit s cache2 \<longrightarrow>
      fst (onmessage (Convert pixels w h s ansi) cache1)
      = fst (onmessage (Convert pixels w h s ansi) cache2))
   \<and> fst (onmessage (Convert pixels w h s ansi) (snd (onmessage ClearCache cache1)))
     = fst (onmessage (Convert pixels w h s ansi) None)
   \<and> (cacheHit s (Some c) \<longrightarrow>
        fst (onmessage (Convert pixels w h s ansi) (Some c))
        = colorOutcome pixels w h s (Some (cachedColors c)))
   \<and> (fst (onmessage (Convert pixels w h s ansi) cache1) = Posted r1
        \<and> fst (onmessage (Convert pixels w h s ansi) cache2) = Posted r2 \<longrightarrow>
        resultAscii r1 = resultAscii r2)"
proof (intro conjI impI)
  assume "\<not> cacheHit s cache1 \<and> \<not> cacheHit s cache2"
  then show "fst (onmessage (Convert pixels w h s ansi) cache1)
      = fst (onmessage (Convert pixels w h s ansi) cache2)"
    by (simp add: onmessage_miss)
next
  show "fst (onmessage (Convert pixels w h s ansi) (snd (onmessage ClearCache cache1)))
     = fst (onmessage (Convert pixels w h s ansi) None)"
    by (simp add: onmessage_def)
next
  assume "cacheHit s (Some c)"
  then show "fst (onmessage (Convert pixels w h s ansi) (Some c))
        = colorOutcome pixels w h s (Some (cachedColors c))"
    by (simp add: onmessage_hit)
next
  assume "fst (onmessage (Convert pixels w h s ansi) cache1) = Posted r1
        \<and> fst (onmessage (Convert pixels w h s ansi) cache2) = Posted r2"
  then have "resultAscii r1 = ascii (brightnessMapping pixels w h s)"
    and "resultAscii r2 = ascii (brightnessMapping pixels w h s)"
    by (auto simp add: onmessage_def Let_def split: if_splits sum.splits prod.splits)
  then show "resultAscii r1 = resultAscii r2" by simp
qed

text \<open>
  C2. Two runs of the \<^verbatim>\<open>convert\<close> handler on identical inputs should post the same ascii and
  html, whatever \<^verbatim>\<open>cachedPalette\<close> holds from earlier messages with other pixels. The main
  thread posts one \<^verbatim>\<open>convert\<close> message per frame of a video and no \<^verbatim>\<open>clearCache\<close> between
  them, so in an adaptive mode the worker colours every frame with the palette of the
  first one: after a frame of one blue pixel, the \<^verbatim>\<open>convert\<close> message of a frame of one red
  pixel posts a blue span, while the same message posts a red span from a new worker, and
  also when the picture comes through \<^verbatim>\<open>loadImage\<close>, which posts \<^verbatim>\<open>clearCache\<close> first.
\<close>

theorem convertVideoFrame_reuses_stale_palette:
  "runWorker (convertVideoFrame adaptiveControls redPixel 1 1 []) None
   = [Posted \<lparr> resultAscii = ''#'' @ [newline],
               resultHtml = Some (spanTag ''rgb(255,0,0)'' ''#'' @ [newline]),
               resultWidth = 1, resultHeight = 1 \<rparr>]
   \<and> runWorker (convertVideoFrame adaptiveControls bluePixel 1 1 []
                @ convertVideoFrame adaptiveControls redPixel 1 1 []) None
     = [Posted \<lparr> resultAscii = ''#'' @ [newline],
                 resultHtml = Some (spanTag ''rgb(0,0,255)'' ''#'' @ [newline]),
                 resultWidth = 1, resultHeight = 1 \<rparr>,
        Posted \<lparr> resultAscii = ''#'' @ [newline],
                 resultHtml = Some (spanTag ''rgb(0,0,255)'' ''#'' @ [newline]),
                 resultWidth = 1, resultHeight = 1 \<rparr>]
   \<and> runWorker (convertVideoFrame adaptiveControls bluePixel 1 1 []
                @ loadImage adaptiveControls redPixel 1 1 []) None
     = [Posted \<lparr> resultAscii = ''#'' @ [newline],
                 resultHtml = Some (spanTag ''rgb(0,0,255)'' ''#'' @ [newline]),
                 resultWidth = 1, resultHeight = 1 \<rparr>,
        Silent,
        Posted \<lparr> resultAscii = ''#'' @ [newline],
                 resultHtml = Some (spanTag ''rgb(255,0,0)'' ''#'' @ [newline]),
                 resultWidth = 1, resultHeight = 1 \<rparr>]
   \<and> last (runWorker (convertVideoFrame adaptiveControls bluePixel 1 1 []
                      @ convertVideoFrame adaptiveControls redPixel 1 1 []) None)
     \<noteq> last (runWorker (convertVideoFrame adaptiveControls redPixel 1 1 []) None)"
  by code_simp

section \<open>The empty ramp\<close>

lemma allOrError_Inr:
  assumes "\<forall>x\<in>set xs. \<exists>v. x = Inr v"
  shows "\<exists>vs. allOrError xs = Inr vs"
  using assms by (induction xs rule: allOrError.induct) auto

lemma rowCells_total:
  assumes "\<And>y x. \<exists>c. style y x = Inr c"
  shows "\<exists>cells. rowCells style lines width y = Inr cells"
proof -
  have "\<forall>e\<in>set (concat (map (\<lambda>x. case cellChar lines y x of
                                     None \<Rightarrow> []
                                   | Some ch \<Rightarrow> [case style y x of Inl e \<Rightarrow> Inl e
                                                                  | Inr c \<Rightarrow> Inr (c, ch)])
                             [0..<width])). \<exists>v. e = Inr v"
  proof
    fix e assume "e \<in> set (concat (map (\<lambda>x. case cellChar lines y x of
                                     None \<Rightarrow> []
                                   | Some ch \<Rightarrow> [case style y x of Inl e \<Rightarrow> Inl e
                                                                  | Inr c \<Rightarrow> Inr (c, ch)])
                             [0..<width]))"
    then obtain x ch where "e = (case style y x of Inl e \<Rightarrow> Inl e | Inr c \<Rightarrow> Inr (c, ch))"
      by (auto split: option.splits)
    moreover obtain c where "style y x = Inr c" using assms by blast
    ultimately show "\<exists>v. e = Inr v" by simp
  qed
  then show ?thesis unfolding rowCells_def by (rule allOrError_Inr)
qed

lemma markup_total:
  assumes "\<And>y x. \<exists>c. style y x = Inr c"
  shows "\<exists>html. markup tag style a width height = Inr html"
proof -
  have "\<forall>r\<in>set (map (rowCells style (splitLines a) width) [0..<height]). \<exists>v. r = Inr v"
    using rowCells_total [OF assms] by auto
  then obtain rows where "allOrError (map (rowCells style (splitLines a) width) [0..<height]) = Inr rows"
    using allOrError_Inr by blast
  then show ?thesis by (simp add: markup_def)
qed

lemma onmessage_monochrome_posts:
  assumes "colorMode s = Monochrome"
  shows "\<exists>r. fst (onmessage (Convert pixels w h s ansi) cache) = Posted r
             \<and> resultAscii r = ascii (brightnessMapping pixels w h s)"
proof (cases "brightnessOpacity s")
  case True
  obtain html where "processMonoBrightnessOpacity (ascii (brightnessMapping pixels w h s)) pixels w h s = Inr html"
    unfolding processMonoBrightnessOpacity_def
    using markup_total [of "\<lambda>y x. Inr (monoOpacity pixels w s y x)" "monoSpan s"
        "ascii (brightnessMapping pixels w h s)" w h] by blast
  then show ?thesis using assms True by (simp add: onmessage_def Let_def)
next
  case False
  then show ?thesis using assms by (simp add: onmessage_def Let_def)
qed

text \<open>
  C7. An empty custom ramp is not refused. \<^verbatim>\<open>convertToAscii\<close> replaces it by the default ramp
  of ten characters before it posts the message, so the ramp it sends is never empty, and
  the conversion runs: in monochrome mode the worker posts a result, whose ascii is the
  glyph mapping under the settings sent.
\<close>

theorem convertToAscii_empty_ramp_falls_back:
  "(customChars c = [] \<longrightarrow> chars (workerSettings c) = defaultRamp)
   \<and> (customChars c \<noteq> [] \<longrightarrow> chars (workerSettings c) = customChars c)
   \<and> chars (workerSettings c) \<noteq> []
   \<and> defaultRamp = ''@%#*+=-:. ''
   \<and> (colorModeValue c = Monochrome \<longrightarrow>
        (\<exists>r. fst (onmessage (convertMessage c pixels w h ansi) cache) = Posted r
              \<and> resultAscii r = ascii (brightnessMapping pixels w h (workerSettings c))))"
proof -
  have "colorMode (workerSettings c) = colorModeValue c" by (simp add: workerSettings_def)
  then show ?thesis
    using onmessage_monochrome_posts [of "workerSettings c" pixels w h ansi cache]
    by (simp add: workerSettings_def defaultRamp_def convertMessage_def)
qed

theorem convertToAscii_empty_ramp_falls_back_witness:
  "customChars emptyRampControls = []
   \<and> chars (workerSettings emptyRampControls) = ''@%#*+=-:. ''
   \<and> colorModeValue emptyRampControls = Monochrome
   \<and> (\<exists>r. fst (onmessage (convertMessage emptyRampControls whitePixel 1 1 []) None) = Posted r
           \<and> resultAscii r = '' '' @ [newline])"
proof -
  have a: "ascii (brightnessMapping whitePixel 1 1 (workerSettings emptyRampControls)) = '' '' @ [newline]"
    by code_simp
  note t = convertToAscii_empty_ramp_falls_back [of emptyRampControls whitePixel 1 1 "[]" None]
  have e: "customChars emptyRampControls = []" by (simp add: emptyRampControls_def)
  have m: "colorModeValue emptyRampControls = Monochrome" by (simp add: emptyRampControls_def)
  from t e have c: "chars (workerSettings emptyRampControls) = ''@%#*+=-:. ''"
    by (simp add: defaultRamp_def)
  from t m obtain r where
    "fst (onmessage (convertMessage emptyRampControls whitePixel 1 1 []) None) = Posted r"
    and "resultAscii r = ascii (brightnessMapping whitePixel 1 1 (workerSettings emptyRampControls))"
    by blast
  with a have "\<exists>r. fst (onmessage (convertMessage emptyRampControls whitePixel 1 1 []) None) = Posted r
           \<and> resultAscii r = '' '' @ [newline]"
    by simp
  with e m c show ?thesis by (intro conjI)
qed

text \<open>
  C7, as stated, fails: a \<^verbatim>\<open>convert\<close> message whose ramp is empty is converted by the worker,
  which posts a result (every cell reads \<^verbatim>\<open>undefined\<close>) and raises no error.
\<close>

theorem worker_converts_with_empty_ramp:
  "onmessage (Convert whitePixel 1 1 (plainSettings\<lparr>chars := []\<rparr>) []) None
   = (Posted \<lparr> resultAscii = ''undefined'' @ [newline], resultHtml = None,
               resultWidth = 1, resultHeight = 1 \<rparr>, None)"
  by code_simp

section \<open>The cached colour strings\<close>

lemma key_b: "ucast (push_bit 24 (a::32 word) OR push_bit 16 (ucast (r::8 word)) OR push_bit 8 (ucast (g::8 word)) OR ucast (b::8 word)) = b"
  by (rule bit_word_eqI) (auto simp: bit_simps dest: bit_imp_le_length)

lemma key_g: "ucast (drop_bit 8 (push_bit 24 (a::32 word) OR push_bit 16 (ucast (r::8 word)) OR push_bit 8 (ucast (g::8 word)) OR ucast (b::8 word))) = g"
  by (rule bit_word_eqI) (auto simp: bit_simps dest: bit_imp_le_length)

lemma key_r: "ucast (drop_bit 16 (push_bit 24 (a::32 word) OR push_bit 16 (ucast (r::8 word)) OR push_bit 8 (ucast (g::8 word)) OR ucast (b::8 word))) = r"
  by (rule bit_word_eqI) (auto simp: bit_simps dest: bit_imp_le_length)

lemma key_a: "drop_bit 24 (push_bit 24 (a::32 word) OR push_bit 16 (ucast (r::8 word)) OR push_bit 8 (ucast (g::8 word)) OR ucast (b::8 word)) = take_bit 8 a"
  by (rule bit_word_eqI) (auto simp: bit_simps dest: bit_imp_le_length)

lemma cacheKey_b: "ucast (cacheKey x r g b) = b"
  unfolding cacheKey_def by (rule key_b)
lemma cacheKey_g: "ucast (drop_bit 8 (cacheKey x r g b)) = g"
  unfolding cacheKey_def by (rule key_g)
lemma cacheKey_r: "ucast (drop_bit 16 (cacheKey x r g b)) = r"
  unfolding cacheKey_def by (rule key_r)
lemma cacheKey_a: "drop_bit 24 (cacheKey x r g b) = take_bit 8 (toInt32 x)"
  unfolding cacheKey_def by (rule key_a)

lemma toInt32_of_int: "toInt32 (Fin (of_int n)) = word_of_int n"
  by simp

lemma uint_low_byte:
  assumes "0 \<le> n" "n < 256"
  shows "uint (take_bit 8 (word_of_int n :: 32 word)) = n"
proof -
  have "uint (take_bit 8 (word_of_int n :: 32 word)) = take_bit 8 n"
    by (simp add: unsigned_take_bit_eq uint_word_of_int_eq)
  also have "\<dots> = n" using assms by (simp add: take_bit_int_eq_self)
  finally show ?thesis .
qed

lemma digitChar_zero: "digitChar 0 = CHR ''0''"
  by code_simp

lemma cacheKey_inj:
  assumes "0 \<le> n" "n \<le> 100" "0 \<le> n'" "n' \<le> 100"
    and "cacheKey (Fin (of_int n)) r g b = cacheKey (Fin (of_int n')) r' g' b'"
  shows "n = n' \<and> r = r' \<and> g = g' \<and> b = b'"
proof -
  have "b = b'" using cacheKey_b [of "Fin (of_int n)" r g b] cacheKey_b [of "Fin (of_int n')" r' g' b'] assms(5) by simp
  moreover have "g = g'" using cacheKey_g [of "Fin (of_int n)" r g b] cacheKey_g [of "Fin (of_int n')" r' g' b'] assms(5) by simp
  moreover have "r = r'" using cacheKey_r [of "Fin (of_int n)" r g b] cacheKey_r [of "Fin (of_int n')" r' g' b'] assms(5) by simp
  moreover have "n = n'"
  proof -
    have "take_bit 8 (toInt32 (Fin (of_int n))) = take_bit 8 (toInt32 (Fin (of_int n')))"
      using cacheKey_a [of "Fin (of_int n)" r g b] cacheKey_a [of "Fin (of_int n')" r' g' b'] assms(5) by simp
    then have "uint (take_bit 8 (toInt32 (Fin (of_int n)))) = uint (take_bit 8 (toInt32 (Fin (of_int n'))))"
      by simp
    then show ?thesis using assms(1-4) by (simp add: uint_low_byte)
  qed
  ultimately show ?thesis by simp
qed

lemma hundredths_range:
  assumes "0 \<le> (o' :: rat)" "o' \<le> 1"
  shows "0 \<le> \<lfloor>o' * 100 + 1 / 2\<rfloor> \<and> \<lfloor>o' * 100 + 1 / 2\<rfloor> \<le> 100"
proof -
  have "0 \<le> o' * 100 + 1 / 2" using assms by simp
  moreover have "o' * 100 + 1 / 2 < 101" using assms by simp
  ultimately show ?thesis by (simp add: floor_le_iff)
qed

lemma hundredths_threshold:
  "100 \<le> \<lfloor>o' * 100 + 1 / 2 :: rat\<rfloor> \<longleftrightarrow> 995 / 1000 \<le> o'"
  by (simp add: le_floor_iff) linarith

lemma fixed2_hundredths:
  assumes "0 \<le> n" "n < 100"
  shows "toFixed2 (Fin (of_int n) / Fin 100) = ''0.'' @ [digitChar (nat n div 10), digitChar (nat n mod 10)]"
proof -
  have q: "Fin (of_int n) / Fin 100 = Fin (of_int n / 100)" by (simp add: Fin_divide)
  have "\<bar>of_int n / 100 :: rat\<bar> * 100 + 1 / 2 = of_int n + 1 / 2" using assms by simp
  then have "\<lfloor>\<bar>of_int n / 100 :: rat\<bar> * 100 + 1 / 2\<rfloor> = n" by simp linarith
  moreover have "\<not> (of_int n / 100 :: rat) < 0" using assms by simp
  moreover have "nat n div 100 = 0" "nat n mod 100 = nat n" using assms by simp_all
  ultimately show ?thesis
    unfolding q toFixed2.simps fixed2_def Let_def by (simp add: digitChar_zero)
qed

lemma getColorStringCached_sound:
  assumes "cacheSound cache" "0 \<le> o'" "o' \<le> 1"
  shows "fst (getColorStringCached r g b (Fin o') cache) = colorText \<lfloor>o' * 100 + 1 / 2\<rfloor> r g b
         \<and> cacheSound (snd (getColorStringCached r g b (Fin o') cache))"
proof -
  let ?n = "\<lfloor>o' * 100 + 1 / 2\<rfloor>"
  let ?key = "cacheKey (Fin (of_int ?n)) r g b"
  have n: "0 \<le> ?n" "?n \<le> 100" using hundredths_range [OF assms(2,3)] by simp_all
  have opacityInt: "roundN (Fin o' * Fin 100) = Fin (of_int ?n)"
    by (simp add: Fin_times)
  have fresh: "(if lessN (Fin (of_int ?n)) (Fin 100)
                then ''rgba('' @ byteStr r @ '','' @ byteStr g @ '','' @ byteStr b @ '',''
                     @ toFixed2 (Fin (of_int ?n) / Fin 100) @ '')''
                else ''rgb('' @ byteStr r @ '','' @ byteStr g @ '','' @ byteStr b @ '')'')
               = colorText ?n r g b"
    using n by (simp add: colorText_def fixed2_hundredths)
  show ?thesis
  proof (cases "map_of cache ?key")
    case None
    have "\<exists>n' r' g' b'. 0 \<le> n' \<and> n' \<le> 100 \<and> ?key = cacheKey (Fin (of_int n')) r' g' b'
            \<and> colorText ?n r g b = colorText n' r' g' b'"
      using n by blast
    then have "cacheSound ((if length cache \<ge> COLOR_CACHE_MAX then [] else cache) @ [(?key, colorText ?n r g b)])"
      using assms(1) unfolding cacheSound_def by auto
    then show ?thesis
      using None fresh unfolding getColorStringCached_def opacityInt Let_def by simp
  next
    case (Some cached)
    then have "(?key, cached) \<in> set cache" by (rule map_of_SomeD)
    then obtain n' r' g' b' where e: "0 \<le> n'" "n' \<le> 100"
        "?key = cacheKey (Fin (of_int n')) r' g' b'" "cached = colorText n' r' g' b'"
      using assms(1) unfolding cacheSound_def by blast
    have "?n = n' \<and> r = r' \<and> g = g' \<and> b = b'"
      using n e(1-3) by (intro cacheKey_inj)
    then have "cached = colorText ?n r g b" using e(4) by simp
    then show ?thesis
      using Some assms(1) unfolding getColorStringCached_def opacityInt Let_def by simp
  qed
qed

lemma unitNum_Fin: "unitNum x \<Longrightarrow> \<exists>q. x = Fin q \<and> 0 \<le> q \<and> q \<le> 1"
  by (cases x) simp_all

lemma cacheSound_foldl:
  assumes "cacheSound cache" "\<forall>call\<in>set calls. unitCall call"
  shows "cacheSound (foldl (\<lambda>cache (r, g, b, opacity). snd (getColorStringCached r g b opacity cache)) cache calls)"
  using assms
proof (induction calls arbitrary: cache)
  case Nil
  then show ?case by simp
next
  case (Cons call calls)
  obtain r g b x where call: "call = (r, g, b, x)" by (cases call)
  with Cons.prems(2) obtain q where q: "x = Fin q" "0 \<le> q" "q \<le> 1"
    using unitNum_Fin by (auto simp: unitCall_def)
  have "cacheSound (snd (getColorStringCached r g b (Fin q) cache))"
    using getColorStringCached_sound [OF Cons.prems(1) q(2,3)] by simp
  then show ?case using Cons.IH Cons.prems(2) by (simp add: call q(1))
qed

lemma cacheSound_cacheAfter:
  assumes "\<forall>call\<in>set calls. unitCall call"
  shows "cacheSound (cacheAfter calls)"
  unfolding cacheAfter_def
  by (rule cacheSound_foldl [OF _ assms]) (simp add: cacheSound_def)

text \<open>
  After any calls of the optimised \<^verbatim>\<open>getColorString\<close> with opacities between 0 and 1, a cell
  opacity \<^verbatim>\<open>o\<close> (between 0 and 1) whose hundredths \<^verbatim>\<open>round(o * 100)\<close> reach 100, that is
  \<^verbatim>\<open>o >= 0.995\<close>, is rendered as \<^verbatim>\<open>rgb(r,g,b)\<close> without alpha, the string of opacity 1, so the
  cell joins the run of a cell of opacity 1; below the threshold it is rendered as
  \<^verbatim>\<open>rgba(r,g,b,0.dd)\<close> with the two digits of the hundredths.
\<close>

lemma getColorStringCached_unit_opacities:
  assumes "\<forall>call\<in>set calls. unitCall call" and "\<forall>call\<in>set calls'. unitCall call"
    and "0 \<le> o'" and "o' \<le> 1"
  shows "(100 \<le> \<lfloor>o' * 100 + 1 / 2\<rfloor> \<longleftrightarrow> 995 / 1000 \<le> o')
    \<and> (995 / 1000 \<le> o' \<longrightarrow>
         fst (getColorStringCached r g b (Fin o') (cacheAfter calls))
         = ''rgb('' @ byteStr r @ '','' @ byteStr g @ '','' @ byteStr b @ '')''
         \<and> fst (getColorStringCached r g b (Fin o') (cacheAfter calls))
           = fst (getColorStringCached r g b (Fin 1) (cacheAfter calls'))
         \<and> mergeCell tag (Some (fst (getColorStringCached r g b (Fin 1) (cacheAfter calls'))),
                           currentChars, parts)
                          (fst (getColorStringCached r g b (Fin o') (cacheAfter calls)), ch)
           = (Some (fst (getColorStringCached r g b (Fin 1) (cacheAfter calls'))),
              currentChars @ escapeHtml [ch], parts))
    \<and> (o' < 995 / 1000 \<longrightarrow>
         fst (getColorStringCached r g b (Fin o') (cacheAfter calls))
         = ''rgba('' @ byteStr r @ '','' @ byteStr g @ '','' @ byteStr b @ '',0.''
           @ [digitChar (nat \<lfloor>o' * 100 + 1 / 2\<rfloor> div 10),
              digitChar (nat \<lfloor>o' * 100 + 1 / 2\<rfloor> mod 10)] @ '')'')"
proof -
  have s: "fst (getColorStringCached r g b (Fin o') (cacheAfter calls))
           = colorText \<lfloor>o' * 100 + 1 / 2\<rfloor> r g b"
    using getColorStringCached_sound [OF cacheSound_cacheAfter [OF assms(1)] assms(3,4)] by simp
  have "fst (getColorStringCached r g b (Fin 1) (cacheAfter calls'))
           = colorText \<lfloor>(1 :: rat) * 100 + 1 / 2\<rfloor> r g b"
    using getColorStringCached_sound [OF cacheSound_cacheAfter [OF assms(2)], of 1] by simp
  then have one: "fst (getColorStringCached r g b (Fin 1) (cacheAfter calls'))
           = ''rgb('' @ byteStr r @ '','' @ byteStr g @ '','' @ byteStr b @ '')''"
    by (simp add: colorText_def)
  have t: "100 \<le> \<lfloor>o' * 100 + 1 / 2\<rfloor> \<longleftrightarrow> 995 / 1000 \<le> o'"
    by (rule hundredths_threshold)
  have hi: "995 / 1000 \<le> o' \<Longrightarrow> colorText \<lfloor>o' * 100 + 1 / 2\<rfloor> r g b
            = ''rgb('' @ byteStr r @ '','' @ byteStr g @ '','' @ byteStr b @ '')''"
    using t by (simp add: colorText_def)
  have lo: "o' < 995 / 1000 \<Longrightarrow> colorText \<lfloor>o' * 100 + 1 / 2\<rfloor> r g b
            = ''rgba('' @ byteStr r @ '','' @ byteStr g @ '','' @ byteStr b @ '',0.''
           @ [digitChar (nat \<lfloor>o' * 100 + 1 / 2\<rfloor> div 10),
              digitChar (nat \<lfloor>o' * 100 + 1 / 2\<rfloor> mod 10)] @ '')''"
    using t by (simp add: colorText_def)
  show ?thesis
    unfolding s one using t hi lo by (simp add: mergeCell_def)
qed

lemma getColorStringCached_NaN:
  "getColorStringCached r g b NaN []
   = (''rgb('' @ byteStr r @ '','' @ byteStr g @ '','' @ byteStr b @ '')'',
      [(cacheKey (Fin 0) r g b, ''rgb('' @ byteStr r @ '','' @ byteStr g @ '','' @ byteStr b @ '')'')])"
  by (simp add: getColorStringCached_def Let_def num_arith cacheKey_def COLOR_CACHE_MAX_def)

lemma cacheAfter_NaN:
  "cacheAfter [(r, g, b, NaN)]
   = [(cacheKey (Fin 0) r g b, ''rgb('' @ byteStr r @ '','' @ byteStr g @ '','' @ byteStr b @ '')'')]"
  by (simp add: cacheAfter_def getColorStringCached_NaN)

lemma floor_half: "\<lfloor>1 / 2 :: rat\<rfloor> = 0"
  by code_simp

lemma floor_hundred_half: "\<lfloor>201 / 2 :: rat\<rfloor> = 100"
  by code_simp

lemma getColorStringCached_zero_hit:
  "fst (getColorStringCached r g b (Fin 0) [(cacheKey (Fin 0) r g b, str)]) = str"
  by (simp add: getColorStringCached_def Let_def Fin_arith floor_half)

lemma toFixed2_zero: "toFixed2 (Fin 0 / Fin 100) = ''0.00''"
  by code_simp

lemma getColorStringCached_zero_fresh:
  "fst (getColorStringCached r g b (Fin 0) [])
   = ''rgba('' @ byteStr r @ '','' @ byteStr g @ '','' @ byteStr b @ '',0.00)''"
  using toFixed2_zero by (simp add: getColorStringCached_def Let_def Fin_arith floor_half)

lemma getColorStringCached_one_miss:
  "fst (getColorStringCached r g b (Fin 1) [(cacheKey (Fin 0) r g b, str)])
   = ''rgb('' @ byteStr r @ '','' @ byteStr g @ '','' @ byteStr b @ '')''"
proof -
  have "cacheKey (Fin 100) r g b \<noteq> cacheKey (Fin 0) r g b"
  proof
    assume "cacheKey (Fin 100) r g b = cacheKey (Fin 0) r g b"
    then have "drop_bit 24 (cacheKey (Fin 100) r g b) = drop_bit 24 (cacheKey (Fin 0) r g b)"
      by simp
    then have "take_bit 8 (toInt32 (Fin 100)) = take_bit 8 (toInt32 (Fin 0))"
      by (simp only: cacheKey_a)
    then show False by simp
  qed
  then show ?thesis
    by (simp add: getColorStringCached_def Let_def Fin_arith floor_hundred_half)
qed

text \<open>
  C10. In the optimised worker a cell opacity whose hundredths \<^verbatim>\<open>round(opacity * 100)\<close> stay
  below 100 should be rendered as \<^verbatim>\<open>rgba\<close> with the alpha in two decimals, and only the
  others as \<^verbatim>\<open>rgb\<close>. This fails once a cell had the opacity \<^verbatim>\<open>NaN\<close>, which the cell of a
  white pixel gets from histogram equalisation when the opacity follows the brightness.
  \<^verbatim>\<open>Math.round(NaN * 100)\<close> is \<^verbatim>\<open>NaN\<close>, which is not below 100 and which the shift of the key
  turns into 0: the string \<^verbatim>\<open>rgb(r,g,b)\<close> is stored under the key of opacity 0. A later cell
  of the same colour and of opacity 0 gets that string from the cache, the string of
  opacity 1 with no alpha, while a new cache, and the worker that has no cache, give
  \<^verbatim>\<open>rgba(r,g,b,0.00)\<close>.
\<close>

theorem getColorStringCached_NaN_entry_hides_alpha:
  "brightnessValues (brightnessMapping whitePixel 1 1 (plainSettings\<lparr>histogram := True\<rparr>)) = [NaN]
   \<and> cellOpacity (plainSettings\<lparr>histogram := True, brightnessOpacity := True\<rparr>) NaN = NaN
   \<and> cellOpacity (plainSettings\<lparr>brightnessOpacity := True\<rparr>) (Fin 1) = Fin 0
   \<and> roundN (NaN * Fin 100) = NaN \<and> \<not> lessN NaN (Fin 100)
   \<and> roundN (Fin 0 * Fin 100) = Fin 0 \<and> lessN (Fin 0) (Fin 100)
   \<and> cacheKey NaN r g b = cacheKey (Fin 0) r g b
   \<and> fst (getColorStringCached r g b NaN [])
     = ''rgb('' @ byteStr r @ '','' @ byteStr g @ '','' @ byteStr b @ '')''
   \<and> fst (getColorStringCached r g b (Fin 0) (cacheAfter [(r, g, b, NaN)]))
     = ''rgb('' @ byteStr r @ '','' @ byteStr g @ '','' @ byteStr b @ '')''
   \<and> fst (getColorStringCached r g b (Fin 0) (cacheAfter [(r, g, b, NaN)]))
     = fst (getColorStringCached r g b (Fin 1) (cacheAfter [(r, g, b, NaN)]))
   \<and> fst (getColorStringCached r g b (Fin 0) (cacheAfter []))
     = ''rgba('' @ byteStr r @ '','' @ byteStr g @ '','' @ byteStr b @ '',0.00)''
   \<and> fst (getColorStringCached 255 255 255 (Fin 0) (cacheAfter [(255, 255, 255, NaN)]))
     = ''rgb(255,255,255)''
   \<and> fst (getColorStringCached 255 255 255 (Fin 0) (cacheAfter []))
     = ''rgba(255,255,255,0.00)''
   \<and> getColorString (Fin 255) (Fin 255) (Fin 255) (Fin 0) = ''rgba(255,255,255,0.00)''"
proof -
  have b: "byteStr 255 = ''255''" by code_simp
  have n: "brightnessValues (brightnessMapping whitePixel 1 1 (plainSettings\<lparr>histogram := True\<rparr>))
           = [NaN]"
    by code_simp
  have o: "cellOpacity (plainSettings\<lparr>histogram := True, brightnessOpacity := True\<rparr>) NaN = NaN"
    "cellOpacity (plainSettings\<lparr>brightnessOpacity := True\<rparr>) (Fin 1) = Fin 0"
    by (simp_all add: cellOpacity_def plainSettings_def num_arith)
  have a: "roundN (NaN * Fin 100) = NaN" "\<not> lessN NaN (Fin 100)"
    "roundN (Fin 0 * Fin 100) = Fin 0" "lessN (Fin 0) (Fin 100)"
    by (simp_all add: num_arith floor_half)
  have k: "cacheKey NaN r g b = cacheKey (Fin 0) r g b" by (simp add: cacheKey_def)
  have c1: "fst (getColorStringCached r g b NaN [])
     = ''rgb('' @ byteStr r @ '','' @ byteStr g @ '','' @ byteStr b @ '')''"
    by (simp add: getColorStringCached_NaN)
  have c2: "fst (getColorStringCached r g b (Fin 0) (cacheAfter [(r, g, b, NaN)]))
     = ''rgb('' @ byteStr r @ '','' @ byteStr g @ '','' @ byteStr b @ '')''"
    for r g b
    unfolding cacheAfter_NaN by (rule getColorStringCached_zero_hit)
  have c3: "fst (getColorStringCached r g b (Fin 1) (cacheAfter [(r, g, b, NaN)]))
     = ''rgb('' @ byteStr r @ '','' @ byteStr g @ '','' @ byteStr b @ '')''"
    unfolding cacheAfter_NaN by (rule getColorStringCached_one_miss)
  have c4: "fst (getColorStringCached r g b (Fin 0) (cacheAfter []))
     = ''rgba('' @ byteStr r @ '','' @ byteStr g @ '','' @ byteStr b @ '',0.00)''"
    for r g b
    by (simp add: cacheAfter_def getColorStringCached_zero_fresh)
  have w1: "fst (getColorStringCached 255 255 255 (Fin 0) (cacheAfter [(255, 255, 255, NaN)]))
     = ''rgb(255,255,255)''"
    unfolding c2 b by simp
  have w2: "fst (getColorStringCached 255 255 255 (Fin 0) (cacheAfter [])) = ''rgba(255,255,255,0.00)''"
    unfolding c4 b by simp
  have w3: "getColorString (Fin 255) (Fin 255) (Fin 255) (Fin 0) = ''rgba(255,255,255,0.00)''"
    by code_simp
  from n o a k c1 c2 [of r g b] c3 c4 [of r g b] w1 w2 w3 show ?thesis by (simp only: simp_thms)
qed

section \<open>The palette of an image with few colours\<close>

lemma low_byte_mask: "(w :: 32 word) AND 0xff = take_bit 8 w"
proof -
  have "(0xff :: 32 word) = mask 8" by (simp add: mask_eq_exp_minus_1)
  then show ?thesis by (simp add: take_bit_eq_mask)
qed

lemma unpack_b: "take_bit 8 (push_bit 16 (ucast (r::8 word)) OR push_bit 8 (ucast (g::8 word)) OR ucast (b::8 word) :: 32 word) = ucast b"
  by (rule bit_word_eqI) (auto simp: bit_simps dest: bit_imp_le_length)

lemma unpack_g: "take_bit 8 (signed_drop_bit 8 (push_bit 16 (ucast (r::8 word)) OR push_bit 8 (ucast (g::8 word)) OR ucast (b::8 word) :: 32 word)) = ucast g"
  by (rule bit_word_eqI) (auto simp: bit_simps bit_signed_drop_bit_iff dest: bit_imp_le_length)

lemma unpack_r: "take_bit 8 (signed_drop_bit 16 (push_bit 16 (ucast (r::8 word)) OR push_bit 8 (ucast (g::8 word)) OR ucast (b::8 word) :: 32 word)) = ucast r"
  by (rule bit_word_eqI) (auto simp: bit_simps bit_signed_drop_bit_iff dest: bit_imp_le_length)

lemma word_of_byte_int:
  assumes "0 \<le> n" "n \<le> 255"
  shows "(word_of_int n :: 32 word) = ucast (word_of_int n :: 8 word)"
    and "uint (ucast (word_of_int n :: 8 word) :: 32 word) = n"
proof -
  have u: "uint (word_of_int n :: 8 word) = n"
    using assms by (simp add: uint_word_of_int_eq take_bit_int_eq_self)
  show "uint (ucast (word_of_int n :: 8 word) :: 32 word) = n"
    using u by (simp add: uint_up_ucast is_up)
  then show "(word_of_int n :: 32 word) = ucast (word_of_int n :: 8 word)"
    by (metis word_of_int_uint)
qed

lemma unpack_pack:
  assumes "0 \<le> r" "r \<le> 255" "0 \<le> g" "g \<le> 255" "0 \<le> b" "b \<le> 255"
  shows "unpackKey (packKey (Fin (of_int r), Fin (of_int g), Fin (of_int b)), n) = (r, g, b, n)"
proof -
  let ?k = "push_bit 16 (ucast (word_of_int r :: 8 word)) OR push_bit 8 (ucast (word_of_int g :: 8 word))
            OR ucast (word_of_int b :: 8 word) :: 32 word"
  have k: "packKey (Fin (of_int r), Fin (of_int g), Fin (of_int b)) = ?k"
    using assms by (simp add: packKey_def word_of_byte_int(1))
  show ?thesis
    unfolding k unpackKey_def low_byte_mask prod.case unpack_r unpack_g unpack_b
    using assms by (simp add: word_of_byte_int(2))
qed

lemma byteNum_px:
  assumes "i < length pixels"
  shows "byteNum (px pixels i)"
proof -
  have "uint (pixels ! i) < 256" using uint_lt2p [of "pixels ! i"] by simp
  then have "0 \<le> uint (pixels ! i) \<and> uint (pixels ! i) \<le> 255
             \<and> Fin (of_nat (unat (pixels ! i))) = Fin (of_int (uint (pixels ! i)))"
    by simp
  then show ?thesis using assms unfolding byteNum_def px_def by (simp only: if_True) blast
qed

lemma byteNum_round:
  assumes "0 \<le> v" "v \<le> 255"
  shows "byteNum (roundN (Fin v))"
proof -
  have "0 \<le> \<lfloor>v + 1 / 2\<rfloor>" using assms by simp
  moreover have "\<lfloor>v + 1 / 2\<rfloor> \<le> 255" using assms by (simp add: floor_le_iff)
  ultimately show ?thesis unfolding byteNum_def by auto
qed

lemma mix_bounds:
  fixes a b s :: rat
  assumes "0 \<le> a" "a \<le> 255" "0 \<le> b" "b \<le> 255" "0 \<le> s" "s \<le> 1"
  shows "0 \<le> a + s * (b - a)" and "a + s * (b - a) \<le> 255"
proof -
  have e: "a + s * (b - a) = (1 - s) * a + s * b" by (simp add: algebra_simps)
  have "0 \<le> (1 - s) * a" "0 \<le> s * b" using assms by simp_all
  then show "0 \<le> a + s * (b - a)" unfolding e by simp
  have "(1 - s) * a \<le> (1 - s) * 255" using assms by (intro mult_left_mono) simp_all
  moreover have "s * b \<le> s * 255" using assms by (intro mult_left_mono) simp_all
  ultimately have "(1 - s) * a + s * b \<le> (1 - s) * 255 + s * 255" by simp
  then show "a + s * (b - a) \<le> 255" unfolding e by (simp add: algebra_simps)
qed

lemma byteNum_mix:
  assumes "byteNum a" "byteNum b" "0 \<le> s" "s \<le> 1"
  shows "byteNum (roundN (a + Fin s * (b - a)))"
proof -
  obtain m n where a: "a = Fin (of_int m)" "0 \<le> m" "m \<le> 255"
    and b: "b = Fin (of_int n)" "0 \<le> n" "n \<le> 255"
    using assms(1,2) unfolding byteNum_def by blast
  have v: "a + Fin s * (b - a) = Fin (of_int m + s * (of_int n - of_int m))"
    by (simp add: a b Fin_arith)
  have "(0 :: rat) \<le> of_int m" "(of_int m :: rat) \<le> 255" "(0 :: rat) \<le> of_int n" "(of_int n :: rat) \<le> 255"
    using a b by simp_all
  then show ?thesis
    unfolding v using mix_bounds [of "of_int m" "of_int n" s] assms(3,4)
    by (intro byteNum_round) simp_all
qed

lemma byteNum_gray:
  assumes "byteNum r" "byteNum g" "byteNum b"
  shows "byteNum (roundN (Fin (299 / 1000) * r + Fin (587 / 1000) * g + Fin (114 / 1000) * b))"
proof -
  obtain x y z where r: "r = Fin (of_int x)" "0 \<le> x" "x \<le> 255"
    and g: "g = Fin (of_int y)" "0 \<le> y" "y \<le> 255"
    and b: "b = Fin (of_int z)" "0 \<le> z" "z \<le> 255"
    using assms unfolding byteNum_def by blast
  have v: "Fin (299 / 1000) * r + Fin (587 / 1000) * g + Fin (114 / 1000) * b
           = Fin (299 / 1000 * of_int x + 587 / 1000 * of_int y + 114 / 1000 * of_int z)"
    by (simp add: r g b Fin_arith)
  have x: "(0 :: rat) \<le> of_int x" "(of_int x :: rat) \<le> 255" using r by simp_all
  have y: "(0 :: rat) \<le> of_int y" "(of_int y :: rat) \<le> 255" using g by simp_all
  have z: "(0 :: rat) \<le> of_int z" "(of_int z :: rat) \<le> 255" using b by simp_all
  show ?thesis
    unfolding v using x y z by (intro byteNum_round) simp_all
qed

lemma byteColor_sampleColor:
  assumes "i + 2 < length pixels" "0 \<le> sat"
  shows "byteColor (sampleColor pixels sat i)"
proof -
  have p: "byteNum (px pixels i)" "byteNum (px pixels (i + 1))" "byteNum (px pixels (i + 2))"
    using assms(1) by (simp_all add: byteNum_px)
  show ?thesis
  proof (cases "sat < 1")
    case True
    let ?gray = "roundN (Fin (299 / 1000) * px pixels i + Fin (587 / 1000) * px pixels (i + 1)
                         + Fin (114 / 1000) * px pixels (i + 2))"
    have g: "byteNum ?gray" using p by (rule byteNum_gray)
    have "byteNum (roundN (?gray + Fin sat * (px pixels i - ?gray)))"
      "byteNum (roundN (?gray + Fin sat * (px pixels (i + 1) - ?gray)))"
      "byteNum (roundN (?gray + Fin sat * (px pixels (i + 2) - ?gray)))"
      using g p assms(2) True by (simp_all add: byteNum_mix)
    then show ?thesis using True by (simp add: sampleColor_def byteColor_def Let_def)
  next
    case False
    then show ?thesis using p by (simp add: sampleColor_def byteColor_def Let_def)
  qed
qed

lemma sampleIndices_in_range:
  assumes "length pixels mod 4 = 0" "i \<in> set (sampleIndices pixels)"
  shows "i + 2 < length pixels"
proof -
  have "i < length pixels" "i mod (4 * sampleStep pixels) = 0"
    using assms(2) by (simp_all add: sampleIndices_def)
  then have "4 dvd i" by (metis dvd_mult_left mod_0_imp_dvd)
  moreover have "4 dvd length pixels" using assms(1) by (simp add: mod_0_imp_dvd)
  ultimately show ?thesis using \<open>i < length pixels\<close> by (auto elim!: dvdE)
qed

lemma byteColor_sampledColors:
  assumes "length pixels mod 4 = 0" "0 \<le> sat" "c \<in> set (sampledColors pixels sat)"
  shows "byteColor c"
  using assms sampleIndices_in_range byteColor_sampleColor
  by (auto simp: sampledColors_def)

lemma tally_keys:
  "map fst (tally k m) = (if k \<in> set (map fst m) then map fst m else map fst m @ [k])"
  by (induction k m rule: tally.induct) auto

lemma collect_keys:
  "distinct (map fst m) \<Longrightarrow>
   distinct (map fst (foldl (\<lambda>m x. tally (f x) m) m xs))
   \<and> set (map fst (foldl (\<lambda>m x. tally (f x) m) m xs)) = set (map fst m) \<union> f ` set xs"
proof (induction xs arbitrary: m)
  case Nil
  then show ?case by simp
next
  case (Cons x xs)
  have "distinct (map fst (tally (f x) m))" using Cons.prems by (simp add: tally_keys)
  from Cons.IH [OF this] show ?case by (auto simp: tally_keys)
qed

lemma collectColors_keys:
  "distinct (map fst (collectColors pixels sat))"
  "set (map fst (collectColors pixels sat)) = packKey ` set (sampledColors pixels sat)"
  using collect_keys [of "[]" "\<lambda>i. packKey (sampleColor pixels sat i)" "sampleIndices pixels"]
  by (auto simp: collectColors_def sampledColors_def)

lemma dropWeight_unpackKey: "dropWeight (unpackKey e) = keyColor (fst e)"
  by (cases e) (simp add: keyColor_def dropWeight_def unpackKey_def)

lemma keyColor_packKey:
  assumes "byteColor c"
  shows "rgbNum (keyColor (packKey c)) = c"
proof -
  obtain r g b where c: "c = (r, g, b)" by (cases c)
  with assms obtain x y z where "r = Fin (of_int x)" "0 \<le> x" "x \<le> 255"
    "g = Fin (of_int y)" "0 \<le> y" "y \<le> 255" "b = Fin (of_int z)" "0 \<le> z" "z \<le> 255"
    unfolding byteColor_def byteNum_def by auto
  then show ?thesis
    by (simp add: c keyColor_def unpack_pack dropWeight_def rgbNum_def)
qed

lemma palette_of_few_colors:
  assumes "length pixels mod 4 = 0" "0 \<le> sat"
  shows "distinct (map dropWeight (colorList pixels sat))"
    and "set (map rgbNum (map dropWeight (colorList pixels sat))) = set (sampledColors pixels sat)"
    and "length (colorList pixels sat) = card (set (sampledColors pixels sat))"
proof -
  let ?S = "set (sampledColors pixels sat)"
  let ?keys = "map fst (collectColors pixels sat)"
  have bc: "\<And>c. c \<in> ?S \<Longrightarrow> byteColor c"
    using assms by (rule byteColor_sampledColors)
  have m: "map dropWeight (colorList pixels sat) = map keyColor ?keys"
    by (simp add: colorList_def dropWeight_unpackKey)
  have inj_pack: "inj_on packKey ?S"
  proof (rule inj_onI)
    fix c d assume c: "c \<in> ?S" and d: "d \<in> ?S" and e: "packKey c = packKey d"
    have "c = rgbNum (keyColor (packKey c))" using keyColor_packKey [OF bc [OF c]] by (rule sym)
    also have "\<dots> = rgbNum (keyColor (packKey d))" by (simp only: e)
    also have "\<dots> = d" using d by (intro keyColor_packKey bc)
    finally show "c = d" .
  qed
  have inj_key: "inj_on keyColor (set ?keys)"
  proof (rule inj_onI)
    fix k l assume "k \<in> set ?keys" "l \<in> set ?keys" and e: "keyColor k = keyColor l"
    then obtain c d where c: "c \<in> ?S" and d: "d \<in> ?S" and k: "k = packKey c" and l: "l = packKey d"
      unfolding collectColors_keys(2) by blast
    have "c = rgbNum (keyColor k)" unfolding k using keyColor_packKey [OF bc [OF c]] by (rule sym)
    also have "\<dots> = rgbNum (keyColor l)" by (simp only: e)
    also have "\<dots> = d" unfolding l using d by (intro keyColor_packKey bc)
    finally show "k = l" by (simp only: k l)
  qed
  show "distinct (map dropWeight (colorList pixels sat))"
    unfolding m by (intro distinct_map [THEN iffD2] conjI collectColors_keys(1) inj_key)
  have "rgbNum ` keyColor ` packKey ` ?S = ?S"
    using keyColor_packKey [OF bc] by (force simp: image_iff)
  then have i: "rgbNum ` keyColor ` set ?keys = ?S"
    by (simp only: collectColors_keys(2))
  have "set (map rgbNum (map keyColor ?keys)) = rgbNum ` keyColor ` set ?keys"
    by (simp only: set_map)
  then show "set (map rgbNum (map dropWeight (colorList pixels sat))) = ?S"
    unfolding m by (simp only: i)
  have "length (colorList pixels sat) = length ?keys" by (simp add: colorList_def)
  also have "\<dots> = card (set ?keys)"
    using distinct_card [OF collectColors_keys(1), of pixels sat] by (rule sym)
  also have "\<dots> = card ?S" unfolding collectColors_keys(2) using inj_pack by (rule card_image)
  finally show "length (colorList pixels sat) = card ?S" .
qed

text \<open>
  C4. For a buffer of whole RGBA pixels and a saturation that is not negative,
  \<^verbatim>\<open>quantizeColors\<close> returns at most \<^verbatim>\<open>k\<close> entries for every \<^verbatim>\<open>k\<close>, and when the sampled
  colours are at most \<^verbatim>\<open>k\<close> distinct ones it returns exactly these: no entry twice, the
  entries are the sampled colours, and there are as many entries as distinct sampled colours.
\<close>

theorem quantizeColors_size_and_exact:
  assumes "length pixels mod 4 = 0" and "0 \<le> sat"
  shows "length (quantizeColors pixels k sat) \<le> k
         \<and> (card (set (sampledColors pixels sat)) \<le> k \<longrightarrow>
              distinct (quantizeColors pixels k sat)
              \<and> set (map rgbNum (quantizeColors pixels k sat)) = set (sampledColors pixels sat)
              \<and> length (quantizeColors pixels k sat) = card (set (sampledColors pixels sat)))"
proof (intro conjI impI)
  show "length (quantizeColors pixels k sat) \<le> k"
    unfolding quantizeColors_def Let_def by (simp del: medianCut.simps)
next
  assume "card (set (sampledColors pixels sat)) \<le> k"
  then have q: "quantizeColors pixels k sat = map dropWeight (colorList pixels sat)"
    unfolding quantizeColors_def Let_def palette_of_few_colors(3) [OF assms] by (simp only: if_True)
  show "distinct (quantizeColors pixels k sat)"
    unfolding q by (rule palette_of_few_colors(1) [OF assms])
  show "set (map rgbNum (quantizeColors pixels k sat)) = set (sampledColors pixels sat)"
    unfolding q by (rule palette_of_few_colors(2) [OF assms])
  show "length (quantizeColors pixels k sat) = card (set (sampledColors pixels sat))"
    unfolding q length_map by (rule palette_of_few_colors(3) [OF assms])
qed

theorem quantizeColors_size_and_exact_witness:
  "length tiePixels mod 4 = 0 \<and> (0 :: rat) \<le> 1 / 2
   \<and> card (set (sampledColors tiePixels (1 / 2))) \<le> 4
   \<and> quantizeColors tiePixels 4 (1 / 2) = [(3, 8, 3), (7, 2, 7), (5, 5, 5)]
   \<and> length (quantizeColors tiePixels 4 (1 / 2)) \<le> 4
   \<and> distinct (quantizeColors tiePixels 4 (1 / 2))
   \<and> set (map rgbNum (quantizeColors tiePixels 4 (1 / 2))) = set (sampledColors tiePixels (1 / 2))
   \<and> length (quantizeColors tiePixels 4 (1 / 2)) = card (set (sampledColors tiePixels (1 / 2)))"
proof -
  have h1: "length tiePixels mod 4 = 0" by (simp add: tiePixels_def)
  have h2: "(0 :: rat) \<le> 1 / 2" by simp
  have h3: "card (set (sampledColors tiePixels (1 / 2))) \<le> 4" by code_simp
  have v: "quantizeColors tiePixels 4 (1 / 2) = [(3, 8, 3), (7, 2, 7), (5, 5, 5)]" by code_simp
  from quantizeColors_size_and_exact [OF h1 h2, of 4] h1 h2 h3 v show ?thesis by blast
qed

section \<open>The layout of the character grid\<close>

lemma unitNum_getBrightness:
  assumes "i + 2 < length pixels"
  shows "unitNum (getBrightness (px pixels i) (px pixels (i + 1)) (px pixels (i + 2)))"
proof -
  have b: "\<And>j. j < length pixels \<Longrightarrow>
             \<exists>n :: rat. px pixels j = Fin n \<and> 0 \<le> n \<and> n \<le> 255"
  proof -
    fix j assume "j < length pixels"
    then obtain n :: int where "0 \<le> n" "n \<le> 255" "px pixels j = Fin (of_int n)"
      using byteNum_px unfolding byteNum_def by blast
    then have "px pixels j = Fin (of_int n) \<and> (0 :: rat) \<le> of_int n \<and> (of_int n :: rat) \<le> 255"
      by simp
    then show "\<exists>n :: rat. px pixels j = Fin n \<and> 0 \<le> n \<and> n \<le> 255" by blast
  qed
  obtain r g bl :: rat where r: "px pixels i = Fin r" "0 \<le> r" "r \<le> 255"
    and g: "px pixels (i + 1) = Fin g" "0 \<le> g" "g \<le> 255"
    and bl: "px pixels (i + 2) = Fin bl" "0 \<le> bl" "bl \<le> 255"
    using b [of i] b [of "i + 1"] b [of "i + 2"] assms by auto
  have e: "getBrightness (px pixels i) (px pixels (i + 1)) (px pixels (i + 2))
        = Fin ((299 / 1000 * r + 587 / 1000 * g + 114 / 1000 * bl) / 255)"
    unfolding r(1) g(1) bl(1) by (simp add: getBrightness_def Fin_arith)
  have "0 \<le> (299 / 1000 * r + 587 / 1000 * g + 114 / 1000 * bl) / 255"
    using r g bl by simp
  moreover have "(299 / 1000 * r + 587 / 1000 * g + 114 / 1000 * bl) / 255 \<le> 1"
    using r g bl by simp
  ultimately show ?thesis unfolding e by (simp only: unitNum.simps)
qed

lemma unitNum_rawBrightness:
  assumes "4 * width * height \<le> length pixels" "v \<in> set (rawBrightness pixels width height)"
  shows "unitNum v"
proof -
  obtain i where "i < width * height"
    and v: "v = getBrightness (px pixels (i * 4)) (px pixels (i * 4 + 1)) (px pixels (i * 4 + 2))"
    using assms(2) by (auto simp: rawBrightness_def)
  then have "i * 4 + 2 < length pixels" using assms(1) by simp
  then show ?thesis unfolding v by (rule unitNum_getBrightness)
qed

lemma unitNum_adjustContrast: "unitNum (adjustContrast c (Fin v))"
  by (simp add: adjustContrast_def Fin_arith)

lemma length_increment: "length (increment h bin) = length h"
  by (simp add: increment_def split: option.splits)

lemma increment_ge:
  assumes "k < length h"
  shows "h ! k \<le> increment h bin ! k"
proof (cases "binIndex bin")
  case None
  then show ?thesis by (simp add: increment_def)
next
  case (Some a)
  show ?thesis
  proof (cases "a < length h")
    case True
    then show ?thesis using Some by (simp add: increment_def nth_list_update)
  next
    case False
    then show ?thesis using Some by (simp add: increment_def list_update_beyond)
  qed
qed

lemma sum_list_bump:
  fixes h :: "nat list"
  assumes "k < length h"
  shows "sum_list (h[k := Suc (h ! k)]) = Suc (sum_list h)"
  using assms
proof (induction h arbitrary: k)
  case Nil
  then show ?case by simp
next
  case (Cons x h)
  then show ?case by (cases k) simp_all
qed

lemma histogram_fold:
  assumes "\<forall>b\<in>set bs. \<exists>k<length h. binIndex (binOf b) = Some k"
  shows "length (foldl (\<lambda>h b. increment h (binOf b)) h bs) = length h
    \<and> sum_list (foldl (\<lambda>h b. increment h (binOf b)) h bs) = sum_list h + length bs
    \<and> (\<forall>k<length h. h ! k \<le> foldl (\<lambda>h b. increment h (binOf b)) h bs ! k)
    \<and> (\<forall>b\<in>set bs. \<forall>k. binIndex (binOf b) = Some k \<longrightarrow>
           1 \<le> foldl (\<lambda>h b. increment h (binOf b)) h bs ! k)"
  using assms
proof (induction bs arbitrary: h)
  case Nil
  show ?case by simp
next
  case (Cons b bs)
  let ?h = "increment h (binOf b)"
  let ?r = "foldl (\<lambda>h b. increment h (binOf b)) ?h bs"
  obtain k where k: "k < length h" "binIndex (binOf b) = Some k"
    using Cons.prems by auto
  have a: "\<forall>b\<in>set bs. \<exists>k<length ?h. binIndex (binOf b) = Some k"
    using Cons.prems by (simp add: length_increment)
  note ih = Cons.IH [OF a]
  have s: "sum_list ?h = sum_list h + 1" using k by (simp add: increment_def sum_list_bump)
  have one: "1 \<le> ?h ! k" using k by (simp add: increment_def)
  have len: "length ?r = length h" using ih by (simp add: length_increment)
  have sum: "sum_list ?r = sum_list h + length (b # bs)" using ih s by simp
  have ge: "\<forall>j<length h. h ! j \<le> ?r ! j"
  proof (intro allI impI)
    fix j assume j: "j < length h"
    then have "h ! j \<le> ?h ! j" by (rule increment_ge)
    also have "\<dots> \<le> ?r ! j" using ih j by (simp add: length_increment)
    finally show "h ! j \<le> ?r ! j" .
  qed
  have "1 \<le> ?r ! k" using one ih k(1) by (auto simp: length_increment intro: order_trans)
  then have hit: "\<forall>b'\<in>set (b # bs). \<forall>j. binIndex (binOf b') = Some j \<longrightarrow> 1 \<le> ?r ! j"
    using ih k(2) by auto
  from len sum ge hit show ?case by simp
qed

lemma length_runningSum: "length (runningSum acc xs) = length xs"
  by (induction xs arbitrary: acc) simp_all

lemma runningSum_nth:
  "k < length xs \<Longrightarrow> runningSum acc xs ! k = acc + sum_list (take (Suc k) xs)"
proof (induction xs arbitrary: acc k)
  case Nil
  then show ?case by simp
next
  case (Cons x xs)
  then show ?case by (cases k) simp_all
qed

lemma sum_list_take_mono:
  fixes xs :: "nat list"
  assumes "i \<le> j"
  shows "sum_list (take i xs) \<le> sum_list (take j xs)"
proof -
  have "take j xs = take i xs @ take (j - i) (drop i xs)"
    using assms by (metis le_add_diff_inverse take_add)
  then show ?thesis by simp
qed

lemma cdf_facts:
  assumes "k < length h"
  shows "cdfOf h ! k = sum_list (take k h) + h ! k"
    and "h ! k \<le> cdfOf h ! k"
    and "cdfOf h ! k \<le> sum_list h"
    and "j < k \<Longrightarrow> cdfOf h ! j + h ! k \<le> cdfOf h ! k"
    and "j \<le> k \<Longrightarrow> cdfOf h ! j \<le> cdfOf h ! k"
proof -
  show e: "cdfOf h ! k = sum_list (take k h) + h ! k"
    using assms by (simp add: cdfOf_def runningSum_nth take_Suc_conv_app_nth)
  then show "h ! k \<le> cdfOf h ! k" by simp
  have "cdfOf h ! k = sum_list (take (Suc k) h)"
    using assms by (simp add: cdfOf_def runningSum_nth)
  also have "\<dots> \<le> sum_list (take (length h) h)" using assms by (intro sum_list_take_mono) simp
  finally show "cdfOf h ! k \<le> sum_list h" by simp
  show "j < k \<Longrightarrow> cdfOf h ! j + h ! k \<le> cdfOf h ! k"
  proof -
    assume j: "j < k"
    then have "cdfOf h ! j = sum_list (take (Suc j) h)"
      using assms by (simp add: cdfOf_def runningSum_nth)
    also have "\<dots> \<le> sum_list (take k h)" using j by (intro sum_list_take_mono) simp
    finally show ?thesis unfolding e by simp
  qed
  show "j \<le> k \<Longrightarrow> cdfOf h ! j \<le> cdfOf h ! k"
  proof -
    assume j: "j \<le> k"
    then have "cdfOf h ! j = sum_list (take (Suc j) h)"
      using assms by (simp add: cdfOf_def runningSum_nth)
    also have "\<dots> \<le> sum_list (take (Suc k) h)" using j by (intro sum_list_take_mono) simp
    also have "\<dots> = cdfOf h ! k" using assms by (simp add: cdfOf_def runningSum_nth)
    finally show ?thesis .
  qed
qed

lemma bin_of_unitNum:
  assumes "unitNum b"
  shows "\<exists>k<256. binIndex (binOf b) = Some k \<and> binOf b = Fin (of_nat k)"
proof -
  obtain q where q: "b = Fin q" "0 \<le> q" "q \<le> 1" using assms unitNum_Fin by blast
  let ?f = "\<lfloor>q * 255\<rfloor>"
  have f: "0 \<le> ?f" "?f \<le> 255"
    using q by (simp_all add: floor_le_iff)
  have b: "binOf b = Fin (of_int ?f)" by (simp add: binOf_def q Fin_arith)
  have r: "(0 :: rat) \<le> of_int ?f" "(of_int ?f :: rat) < 256"
    using f by simp_all
  have "binIndex (Fin (of_int ?f)) = Some (nat ?f)" using r by (simp add: binIndex_def)
  moreover have "nat ?f < 256" using f by arith
  moreover have "(of_int ?f :: rat) = of_nat (nat ?f)" using f(1) by simp
  ultimately show ?thesis unfolding b by metis
qed

lemma equalize_unitNum:
  assumes u: "\<forall>b\<in>set bs. unitNum b" and nb: "\<not> oneBin bs"
  shows "\<forall>v\<in>set (equalize bs). unitNum v"
proof -
  let ?h = "histogramOf bs"
  let ?c = "cdfOf ?h"
  let ?N = "length bs"
  have valid: "\<forall>b\<in>set bs. \<exists>k<length (replicate 256 (0 :: nat)). binIndex (binOf b) = Some k"
    using u bin_of_unitNum by (metis length_replicate)
  note hf = histogram_fold [OF valid, folded histogramOf_def]
  have lenh: "length ?h = 256" using hf by simp
  have sumh: "sum_list ?h = ?N" using hf by simp
  have hit: "\<And>b k. b \<in> set bs \<Longrightarrow> binIndex (binOf b) = Some k \<Longrightarrow> 1 \<le> ?h ! k"
    using hf by blast
  have lenc: "length ?c = 256" by (simp add: cdfOf_def length_runningSum lenh)
  have pos: "\<And>b k. b \<in> set bs \<Longrightarrow> binIndex (binOf b) = Some k \<Longrightarrow> k < 256 \<Longrightarrow> 0 < ?c ! k"
  proof -
    fix b k assume "b \<in> set bs" "binIndex (binOf b) = Some k" "k < 256"
    then have "1 \<le> ?h ! k" "?h ! k \<le> ?c ! k"
      using hit cdf_facts(2) [of k ?h] lenh by simp_all
    then show "0 < ?c ! k" by simp
  qed
  obtain b1 b2 where b12: "b1 \<in> set bs" "b2 \<in> set bs" "binOf b1 \<noteq> binOf b2"
    using nb unfolding oneBin_def by blast
  obtain k1 where k1: "k1 < 256" "binIndex (binOf b1) = Some k1" "binOf b1 = Fin (of_nat k1)"
    using bin_of_unitNum u b12(1) by blast
  obtain k2 where k2: "k2 < 256" "binIndex (binOf b2) = Some k2" "binOf b2 = Fin (of_nat k2)"
    using bin_of_unitNum u b12(2) by blast
  have ne: "k1 \<noteq> k2" using b12(3) k1(3) k2(3) by auto
  have "?c ! k1 \<in> set ?c" using k1(1) lenc by simp
  moreover have "0 < ?c ! k1" using pos b12(1) k1 by blast
  ultimately have "find (\<lambda>v. v > 0) ?c \<noteq> None" unfolding find_None_iff by blast
  then obtain m where m: "find (\<lambda>v. v > 0) ?c = Some m" by blast
  then obtain i0 where i0: "i0 < length ?c" "?c ! i0 = m" "\<forall>j<i0. \<not> 0 < ?c ! j"
    unfolding find_Some_iff by blast
  have first: "\<And>b k. b \<in> set bs \<Longrightarrow> binIndex (binOf b) = Some k \<Longrightarrow> k < 256 \<Longrightarrow> i0 \<le> k"
    using pos i0(3) by (meson not_le_imp_less)
  have low: "\<And>b k. b \<in> set bs \<Longrightarrow> binIndex (binOf b) = Some k \<Longrightarrow> k < 256 \<Longrightarrow> m \<le> ?c ! k"
  proof -
    fix b k assume a: "b \<in> set bs" "binIndex (binOf b) = Some k" "k < 256"
    then have "i0 \<le> k" by (rule first)
    then have "?c ! i0 \<le> ?c ! k" using cdf_facts(5) [of k ?h i0] a(3) lenh by simp
    then show "m \<le> ?c ! k" by (simp add: i0(2))
  qed
  have high: "\<And>k. k < 256 \<Longrightarrow> ?c ! k \<le> ?N"
    using cdf_facts(3) [of _ ?h] lenh sumh by simp
  have more: "m + 1 \<le> ?N"
  proof -
    define lo hi where "lo = min k1 k2" and "hi = max k1 k2"
    have lh: "lo < hi" "hi < 256" "lo < 256" using ne k1(1) k2(1) by (auto simp: lo_def hi_def)
    obtain bl where bl: "bl \<in> set bs" "binIndex (binOf bl) = Some lo"
      using b12 k1(2) k2(2) by (cases "k1 \<le> k2") (auto simp: lo_def min_def)
    obtain bh where bh: "bh \<in> set bs" "binIndex (binOf bh) = Some hi"
      using b12 k1(2) k2(2) by (cases "k1 \<le> k2") (auto simp: hi_def max_def)
    have "m \<le> ?c ! lo" using low bl lh(3) by blast
    moreover have "1 \<le> ?h ! hi" using hit bh by blast
    moreover have "?c ! lo + ?h ! hi \<le> ?c ! hi"
      using cdf_facts(4) [of hi ?h lo] lh lenh by simp
    moreover have "?c ! hi \<le> ?N" using high lh(2) by blast
    ultimately show ?thesis by linarith
  qed
  show ?thesis
  proof
    fix v assume "v \<in> set (equalize bs)"
    then obtain b where b: "b \<in> set bs"
      and v: "v = (cdfAt ?c (binOf b) - Fin (of_nat m)) / (Fin (of_nat ?N) - Fin (of_nat m))"
      unfolding equalize_def Let_def m numOrUndefined_def by auto
    obtain k where k: "k < 256" "binIndex (binOf b) = Some k"
      using bin_of_unitNum u b by blast
    have lo: "m \<le> ?c ! k" using low b k by blast
    have hi: "?c ! k \<le> ?N" using high k(1) by blast
    have d: "(of_nat ?N :: rat) - of_nat m \<noteq> 0" "(0 :: rat) < of_nat ?N - of_nat m"
      using more by (simp_all add: of_nat_less_iff [where 'a = rat, symmetric] del: of_nat_less_iff)
    have e: "v = Fin ((of_nat (?c ! k) - of_nat m) / (of_nat ?N - of_nat m))"
      unfolding v cdfAt_def k(2) using d(1) by (simp add: Fin_arith)
    have "(0 :: rat) \<le> of_nat (?c ! k) - of_nat m" using lo by simp
    then have z: "(0 :: rat) \<le> (of_nat (?c ! k) - of_nat m) / (of_nat ?N - of_nat m)"
      using d(2) by simp
    have "(of_nat (?c ! k) :: rat) - of_nat m \<le> of_nat ?N - of_nat m" using hi by simp
    then have o: "(of_nat (?c ! k) - of_nat m) / (of_nat ?N - of_nat m) \<le> (1 :: rat)"
      using d(2) by (simp add: divide_le_eq)
    show "unitNum v" unfolding e using z o by (simp only: unitNum.simps)
  qed
qed

lemma applyContrast_unitNum:
  assumes "\<forall>b\<in>set bs. unitNum b" and "\<not> (useHistogram \<and> oneBin bs)"
  shows "\<forall>v\<in>set (applyContrast bs c useHistogram). unitNum v"
proof -
  let ?b1 = "if useHistogram then equalize bs else bs"
  have b1: "\<forall>v\<in>set ?b1. unitNum v"
    using assms equalize_unitNum by auto
  have "\<forall>v\<in>set (map (adjustContrast c) ?b1). unitNum v"
  proof
    fix v assume "v \<in> set (map (adjustContrast c) ?b1)"
    then obtain x where "x \<in> set ?b1" "v = adjustContrast c x" by auto
    moreover then obtain q where "x = Fin q" using b1 unitNum_Fin by blast
    ultimately show "unitNum v" by (simp add: unitNum_adjustContrast)
  qed
  then show ?thesis using b1 assms(1) by (simp add: applyContrast_def Let_def)
qed

lemma length_applyContrast: "length (applyContrast bs c useHistogram) = length bs"
  by (simp add: applyContrast_def equalize_def Let_def)

lemma charAtIndex_single:
  assumes "unitNum v" "chars' \<noteq> []"
  shows "\<exists>c\<in>set chars'. charAtIndex chars' (charIndexOf chars' v) = [c]"
proof -
  obtain q where q: "v = Fin q" "0 \<le> q" "q \<le> 1" using assms(1) unitNum_Fin by blast
  let ?k = "min (length chars' - 1) (nat \<lfloor>q * of_nat (length chars')\<rfloor>)"
  have "?k < length chars'" using assms(2) by (cases "length chars'") (simp_all add: min_def)
  then have "chars' ! ?k \<in> set chars'" by (rule nth_mem)
  moreover have "charAtIndex chars' (charIndexOf chars' v) = [chars' ! ?k]"
    unfolding q(1) using q(2,3) assms(2) by (rule charAtIndex_charIndexOf_unit)
  ultimately show ?thesis by blast
qed

lemma concat_singletons:
  assumes "\<forall>x\<in>set xs. \<exists>c. g x = [c]"
  shows "concat (map g xs) = map (\<lambda>x. hd (g x)) xs"
  using assms by (induction xs) auto

lemma asciiRow_shape:
  assumes "\<forall>v\<in>set values. unitNum v" "length values = width * height" "chars' \<noteq> []" "y < height"
  shows "\<exists>row. length row = width \<and> set row \<subseteq> set chars'
               \<and> asciiRow chars' values width y = row @ [newline]"
proof -
  let ?g = "\<lambda>x. charAtIndex chars' (charIndexOf chars' (fget values (y * width + x)))"
  have cell: "\<And>x. x < width \<Longrightarrow> \<exists>c\<in>set chars'. ?g x = [c]"
  proof -
    fix x assume x: "x < width"
    have "y * width + x < y * width + width" using x by simp
    also have "\<dots> = (y + 1) * width" by simp
    also have "\<dots> \<le> height * width" using assms(4) by (intro mult_le_mono1) simp
    finally have "y * width + x < length values" by (simp add: assms(2) mult.commute)
    then have "fget values (y * width + x) \<in> set values" by (simp add: fget_def)
    then have "unitNum (fget values (y * width + x))" using assms(1) by blast
    then show "\<exists>c\<in>set chars'. ?g x = [c]" using assms(3) by (rule charAtIndex_single)
  qed
  then have "\<forall>x\<in>set [0..<width]. \<exists>c. ?g x = [c]" by (metis atLeastLessThan_iff set_upt)
  then have e: "concat (map ?g [0..<width]) = map (\<lambda>x. hd (?g x)) [0..<width]"
    by (rule concat_singletons)
  have "set (map (\<lambda>x. hd (?g x)) [0..<width]) \<subseteq> set chars'"
    using cell by fastforce
  then show ?thesis
    unfolding asciiRow_def e by (intro exI [of _ "map (\<lambda>x. hd (?g x)) [0..<width]"]) simp
qed

lemma rows_exist:
  assumes "\<forall>y<height. \<exists>row. length row = width \<and> set row \<subseteq> A \<and> f y = row @ [newline]"
  shows "\<exists>rows. length rows = height \<and> (\<forall>row\<in>set rows. length row = width \<and> set row \<subseteq> A)
                \<and> map f [0..<height] = map (\<lambda>row. row @ [newline]) rows"
  using assms
proof (induction height)
  case 0
  show ?case by simp
next
  case (Suc n)
  then obtain rows where r: "length rows = n" "\<forall>row\<in>set rows. length row = width \<and> set row \<subseteq> A"
    "map f [0..<n] = map (\<lambda>row. row @ [newline]) rows"
    by (metis less_Suc_eq)
  obtain row where w: "length row = width" "set row \<subseteq> A" "f n = row @ [newline]"
    using Suc.prems by blast
  show ?case
    using r w by (intro exI [of _ "rows @ [row]"]) auto
qed

lemma length_rows:
  assumes "\<forall>row\<in>set rows. length row = width"
  shows "length (concat (map (\<lambda>row. row @ [newline]) rows)) = length rows * (width + 1)"
  using assms by (induction rows) simp_all

lemma newlines_of_rows:
  assumes "\<forall>row\<in>set rows. newline \<notin> set row"
  shows "length (filter (\<lambda>c. c = newline) (concat (map (\<lambda>row. row @ [newline]) rows))) = length rows"
  using assms
proof (induction rows)
  case Nil
  show ?case by simp
next
  case (Cons row rows)
  then have "filter (\<lambda>c. c = newline) row = []" by (auto simp: filter_empty_conv)
  then show ?case using Cons by simp
qed

text \<open>
  For a pixel buffer that holds the \<^verbatim>\<open>4 * width * height\<close> samples of the grid and a ramp
  that is not empty, when histogram equalisation is off or the luminances do not all fall
  into one bin, the ascii string of \<^verbatim>\<open>brightnessMapping\<close> has length \<^verbatim>\<open>height * (width + 1)\<close>
  and is made of \<^verbatim>\<open>height\<close> rows, each of \<^verbatim>\<open>width\<close> characters of the ramp followed by one
  newline; when the ramp holds no newline, the string holds \<^verbatim>\<open>height\<close> newlines, the ones
  that end the rows.
\<close>

lemma brightnessMapping_layout_of_numbers:
  assumes "chars s \<noteq> []" and "4 * width * height \<le> length pixels"
    and "\<not> (histogram s \<and> oneBin (rawBrightness pixels width height))"
  shows "length (ascii (brightnessMapping pixels width height s)) = height * (width + 1)
         \<and> (\<exists>rows. length rows = height
               \<and> (\<forall>row\<in>set rows. length row = width \<and> set row \<subseteq> set (chars s))
               \<and> ascii (brightnessMapping pixels width height s)
                   = concat (map (\<lambda>row. row @ [newline]) rows))
         \<and> (newline \<notin> set (chars s) \<longrightarrow>
              length (filter (\<lambda>c. c = newline) (ascii (brightnessMapping pixels width height s)))
              = height)"
proof -
  let ?chars = "if invert s then rev (chars s) else chars s"
  let ?lum = "applyContrast (rawBrightness pixels width height) (contrast s) (histogram s)"
  have raw: "\<forall>b\<in>set (rawBrightness pixels width height). unitNum b"
    using unitNum_rawBrightness [OF assms(2)] by blast
  have u: "\<forall>v\<in>set ?lum. unitNum v"
    using raw assms(3) by (rule applyContrast_unitNum)
  have len: "length ?lum = width * height"
    by (simp add: length_applyContrast rawBrightness_def)
  have ne: "?chars \<noteq> []" using assms(1) by simp
  have "\<forall>y<height. \<exists>row. length row = width \<and> set row \<subseteq> set ?chars
           \<and> asciiRow ?chars ?lum width y = row @ [newline]"
    using asciiRow_shape [OF u len ne] by blast
  then obtain rows where r: "length rows = height"
      "\<forall>row\<in>set rows. length row = width \<and> set row \<subseteq> set ?chars"
      "map (asciiRow ?chars ?lum width) [0..<height] = map (\<lambda>row. row @ [newline]) rows"
    using rows_exist [of height width "set ?chars" "asciiRow ?chars ?lum width"] by blast
  have a: "ascii (brightnessMapping pixels width height s) = concat (map (\<lambda>row. row @ [newline]) rows)"
    by (simp add: brightnessMapping_def Let_def r(3))
  have sub: "\<forall>row\<in>set rows. length row = width \<and> set row \<subseteq> set (chars s)"
    using r(2) by (simp split: if_splits)
  have l: "length (ascii (brightnessMapping pixels width height s)) = height * (width + 1)"
    unfolding a using sub r(1) length_rows [of rows width] by simp
  have n: "newline \<notin> set (chars s) \<Longrightarrow>
           length (filter (\<lambda>c. c = newline) (ascii (brightnessMapping pixels width height s))) = height"
  proof -
    assume "newline \<notin> set (chars s)"
    then have "\<forall>row\<in>set rows. newline \<notin> set row" using sub by blast
    then show ?thesis unfolding a using r(1) by (simp only: newlines_of_rows)
  qed
  from r(1) sub a l n show ?thesis by blast
qed

text \<open>
  C9. For every pixel buffer, positive width and height and ramp that is not empty, the
  ascii string of \<^verbatim>\<open>brightnessMapping\<close> should be \<^verbatim>\<open>height\<close> rows of \<^verbatim>\<open>width\<close> characters and a
  newline, \<^verbatim>\<open>height * (width + 1)\<close> characters in all. For an image of one colour with
  histogram equalisation on, every luminance is \<^verbatim>\<open>NaN\<close> (zero divided by zero in
  \<^verbatim>\<open>applyContrast\<close>) and every cell appends the nine characters of \<^verbatim>\<open>undefined\<close>: the row of
  one white pixel has 10 characters instead of 2, the row of five red pixels 46 instead
  of 6. With equalisation off the same rows have \<^verbatim>\<open>width\<close> characters and a newline.
\<close>

theorem brightnessMapping_layout_fails_on_uniform_image:
  "chars (plainSettings\<lparr>histogram := True\<rparr>) = ''#. ''
   \<and> length whitePixel = 4 * 1 * 1
   \<and> ascii (brightnessMapping whitePixel 1 1 (plainSettings\<lparr>histogram := True\<rparr>))
     = ''undefined'' @ [newline]
   \<and> length (ascii (brightnessMapping whitePixel 1 1 (plainSettings\<lparr>histogram := True\<rparr>))) = 10
   \<and> length (ascii (brightnessMapping whitePixel 1 1 (plainSettings\<lparr>histogram := True\<rparr>)))
     \<noteq> 1 * (1 + 1)
   \<and> length fiveRed = 4 * 5 * 1
   \<and> ascii (brightnessMapping fiveRed 5 1 (plainSettings\<lparr>histogram := True\<rparr>))
     = ''undefinedundefinedundefinedundefinedundefined'' @ [newline]
   \<and> length (ascii (brightnessMapping fiveRed 5 1 (plainSettings\<lparr>histogram := True\<rparr>)))
     \<noteq> 1 * (5 + 1)
   \<and> ascii (brightnessMapping whitePixel 1 1 plainSettings) = '' '' @ [newline]
   \<and> ascii (brightnessMapping fiveRed 5 1 plainSettings) = ''#####'' @ [newline]"
  by code_simp

section \<open>Histogram equalisation of uniform luminances, in general\<close>

text \<open>
  Whenever the luminances all fall into one bin, the only bin that counts holds all of the
  samples, \<^verbatim>\<open>cdfMin\<close> is their number, and every sample becomes 0 divided by 0: for every
  contrast, \<^verbatim>\<open>applyContrast\<close> with \<^verbatim>\<open>useHistogram\<close> returns \<^verbatim>\<open>NaN\<close> at every cell.
\<close>

lemma histogram_oneBin:
  assumes "k < length h" "\<forall>b\<in>set bs. binIndex (binOf b) = Some k"
  shows "foldl (\<lambda>h b. increment h (binOf b)) h bs = h[k := h ! k + length bs]"
  using assms
proof (induction bs arbitrary: h)
  case Nil
  then show ?case by simp
next
  case (Cons b bs)
  have i: "increment h (binOf b) = h[k := Suc (h ! k)]"
    using Cons.prems(2) by (simp add: increment_def)
  have "foldl (\<lambda>h b. increment h (binOf b)) (h[k := Suc (h ! k)]) bs
        = (h[k := Suc (h ! k)])[k := (h[k := Suc (h ! k)]) ! k + length bs]"
    using Cons.prems by (intro Cons.IH) simp_all
  then show ?case using Cons.prems(1) by (simp add: i)
qed

lemma cdf_oneBin:
  assumes "k < 256"
  shows "cdfOf ((replicate 256 0)[k := n]) ! k = n"
    and "\<forall>j<k. cdfOf ((replicate 256 0)[k := n]) ! j = 0"
proof -
  let ?h = "(replicate 256 (0 :: nat))[k := n]"
  have z: "\<And>j. j \<le> k \<Longrightarrow> sum_list (take j ?h) = 0"
    by (simp add: take_update_cancel)
  show "cdfOf ?h ! k = n"
    using cdf_facts(1) [of k ?h] assms z [of k] by simp
  show "\<forall>j<k. cdfOf ?h ! j = 0"
  proof (intro allI impI)
    fix j assume j: "j < k"
    then have "cdfOf ?h ! j = sum_list (take j ?h) + ?h ! j"
      using cdf_facts(1) [of j ?h] assms by simp
    then show "cdfOf ?h ! j = 0" using j z [of j] assms by simp
  qed
qed

lemma equalize_oneBin:
  assumes u: "\<forall>b\<in>set bs. unitNum b" and one: "oneBin bs"
  shows "equalize bs = replicate (length bs) NaN"
proof (cases bs)
  case Nil
  then show ?thesis by (simp add: equalize_def Let_def)
next
  case (Cons b0 rest)
  let ?N = "length bs"
  have b0: "b0 \<in> set bs" by (simp add: Cons)
  then obtain k where k: "k < 256" "binIndex (binOf b0) = Some k"
    using bin_of_unitNum u by blast
  have all: "\<forall>b\<in>set bs. binIndex (binOf b) = Some k"
    using one b0 k(2) unfolding oneBin_def by metis
  have h: "histogramOf bs = (replicate 256 0)[k := ?N]"
    unfolding histogramOf_def using histogram_oneBin [of k "replicate 256 0" bs] k(1) all by simp
  let ?c = "cdfOf (histogramOf bs)"
  have ck: "?c ! k = ?N" and cz: "\<forall>j<k. ?c ! j = 0"
    unfolding h using cdf_oneBin [OF k(1)] by blast+
  have lenc: "length ?c = 256" by (simp add: cdfOf_def length_runningSum h)
  have pos: "0 < ?N" by (simp add: Cons)
  have m: "find (\<lambda>v. v > 0) ?c = Some ?N"
    unfolding find_Some_iff using ck cz pos k(1) lenc by (intro exI [of _ k]) simp
  have "\<And>b. b \<in> set bs \<Longrightarrow>
          (cdfAt ?c (binOf b) - numOrUndefined (Some ?N)) / (Fin (of_nat ?N) - numOrUndefined (Some ?N)) = NaN"
    using all ck by (simp add: cdfAt_def numOrUndefined_def Fin_arith num_arith)
  then have "map (\<lambda>b. (cdfAt ?c (binOf b) - numOrUndefined (Some ?N))
                        / (Fin (of_nat ?N) - numOrUndefined (Some ?N))) bs
             = replicate ?N NaN"
    by (intro nth_equalityI) simp_all
  then show ?thesis by (simp add: equalize_def Let_def m)
qed

lemma adjustContrast_NaN: "adjustContrast c NaN = NaN"
  by (simp add: adjustContrast_def num_arith)

lemma applyContrast_oneBin:
  assumes "\<forall>b\<in>set bs. unitNum b" and "oneBin bs"
  shows "applyContrast bs c True = replicate (length bs) NaN"
  using equalize_oneBin [OF assms] by (simp add: applyContrast_def Let_def adjustContrast_NaN)

section \<open>The glyph of every cell\<close>









end
